theory Spec2Isabelle
  imports Complex_Main "HOL-Library.Multiset"
begin

section \<open>Data model\<close>

text \<open>
  The engine is the JavaScript class \<open>CreepyBird\<close> together with its helper classes
  \<open>Danmaku\<close>, \<open>DanmakuItem\<close> and \<open>DanmakuLine\<close>.  JavaScript numbers are modelled as
  \<^typ>\<open>real\<close> (times, pixel geometry) and array indices as \<^typ>\<open>nat\<close> or \<^typ>\<open>int\<close>;
  the rounding of IEEE doubles is outside the model, and so is NaN as the value of a
  field or an argument.  Where the code divides by a number that can be zero, the
  non-finite quotient is written out.  The fields \<open>version\<close> and \<open>_debug\<close> and the
  logging have no part in what the engine does and are left out.

  Objects that the code compares by reference carry an explicit identity: a \<open>Danmaku\<close>
  has the field \<open>ref\<close>, allocated by \<open>new Danmaku\<close>, and a DOM element is a number
  allocated by \<open>document.createElement\<close>.  The set \<open>_activeDanmaku\<close> is a JavaScript
  \<open>Set\<close> of \<open>Danmaku\<close> objects, hence a set of such references.
\<close>

datatype DanmakuType = Float | Bottom | Top

datatype CreepyBirdState = Empty | Hide | Playing | Paused

datatype error =
    InvalidDanmakuMode
  | LineMarginNegative
  | OverlayNotInitialized
  | TypeError
  | NetworkRequestFailed
  | HttpError int
  | InvalidResponseCode int
  | FailedToParseXML

record Danmaku =
  ref :: nat
  time :: real
  mode :: DanmakuType
  color :: string
  userId :: string
  text' :: string

record DanmakuItem =
  danmaku :: Danmaku
  element :: nat

record DanmakuLine =
  queue :: "DanmakuItem list"
  fixedItem :: "DanmakuItem option"

text \<open>
  What the engine reads from the video element it is attached to, and from the page.
  \<open>rectLeft\<close> and \<open>rectWidth\<close> are \<open>left\<close> and \<open>width\<close> of the video's
  \<open>getBoundingClientRect()\<close>, which is relative to the viewport; \<open>scrollLeft\<close> is
  \<open>window.pageXOffset || document.documentElement.scrollLeft\<close>.  The vertical
  counterparts are read and written in the same way and have no part in what follows.
\<close>

record Video =
  currentTime :: real
  paused :: bool
  clientWidth :: real
  clientHeight :: real
  rectLeft :: real
  rectWidth :: real
  scrollLeft :: real

text \<open>The \<open>playState\<close> of a Web Animation.\<close>

datatype PlayState = Running | AnimPaused | Finished | Idle

text \<open>
  The overlay element, by the styles that the engine writes: \<open>display\<close>, and
  \<open>left\<close> and \<open>width\<close> in pixels.  Its position is \<open>absolute\<close> under
  \<open>document.body\<close>, so \<open>left\<close> is a coordinate of the page.
\<close>

datatype Display = DisplayDefault | DisplayBlock | DisplayNone

record Overlay =
  styleDisplay :: Display
  styleLeft :: real
  styleWidth :: real

text \<open>
  The fields of \<open>CreepyBird\<close>, without the leading underscore.  A handle that the code only
  tests against \<open>null\<close> (the timer, the two observers) is a \<^typ>\<open>unit option\<close>.
  The last five fields are not fields of the class: \<open>animations\<close> and \<open>rectRight\<close> are
  what the browser answers for an element to \<open>getAnimations()[0]?.playState\<close> and to
  \<open>getBoundingClientRect().right\<close> (relative to the viewport), the two counters
  allocate element numbers and \<open>Danmaku\<close> references, and \<open>pendingLoads\<close> holds, for
  each promise of \<open>load\<close> that has not settled, the \<open>previousState\<close> and the
  \<open>format\<close> that its \<open>then\<close> handler has captured.
\<close>

record CreepyBird =
  overlayElement :: "Overlay option"
  data :: "Danmaku list option"
  isVisible :: bool
  intervalId :: "unit option"
  videoElement :: "Video option"
  danmakuSpeed :: real
  fontSize :: real
  lineSpacing :: real
  lineMargin :: real
  danmakuLines :: "DanmakuLine list"
  nextDanmakuIndex :: "nat option"
  activeDanmaku :: "nat set"
  handlers :: bool
  state :: CreepyBirdState
  resizeObserver :: "unit option"
  intersectionObserver :: "unit option"
  animations :: "nat \<Rightarrow> PlayState option"
  rectRight :: "nat \<Rightarrow> real"
  nextElement :: nat
  nextRef :: nat
  pendingLoads :: "(CreepyBirdState \<times> string) list"

text \<open>The constructor; the browser's answers are those of a page without animations.\<close>

definition constructor :: CreepyBird where
  "constructor =
     \<lparr> overlayElement = None, data = None, isVisible = False, intervalId = None,
       videoElement = None, danmakuSpeed = 100, fontSize = 24, lineSpacing = 12 / 10,
       lineMargin = 50, danmakuLines = [], nextDanmakuIndex = None, activeDanmaku = {},
       handlers = False, state = Empty, resizeObserver = None,
       intersectionObserver = None, animations = (\<lambda>_. None), rectRight = (\<lambda>_. 0),
       nextElement = 0, nextRef = 0, pendingLoads = [] \<rparr>"

definition newDanmakuLine :: DanmakuLine where
  "newDanmakuLine = \<lparr> queue = [], fixedItem = None \<rparr>"

section \<open>Due-item lookup\<close>

text \<open>
  The loop of \<open>searchCurDanmaku\<close>.  \<open>left\<close> and \<open>right\<close> are integers because
  \<open>right\<close> becomes \<open>-1\<close> when the search leaves the array on the left.  Every read
  \<open>_data[mid]\<close> is in range: \<open>0 \<le> left \<le> mid \<le> right \<le> length - 1\<close>.
\<close>

function searchLoop :: "Danmaku list \<Rightarrow> real \<Rightarrow> int \<Rightarrow> int \<Rightarrow> nat option" where
  "searchLoop ds t left right =
     (if left \<le> right then
        (let mid = (left + right) div 2;
             midTime = time (ds ! nat mid)
         in if midTime = t then Some (nat mid)
            else if midTime < t then searchLoop ds t (mid + 1) right
            else searchLoop ds t left (mid - 1))
      else if left < int (length ds) then Some (nat left) else None)"
  by pat_completeness auto
termination
  by (relation "measure (\<lambda>(ds, t, left, right). nat (right - left + 1))") auto

definition searchCurDanmakuFrom :: "real \<Rightarrow> nat \<Rightarrow> CreepyBird \<Rightarrow> nat option" where
  "searchCurDanmakuFrom t startIndex s =
     (case data s of
        None \<Rightarrow> None
      | Some ds \<Rightarrow>
          if length ds = 0 then None
          else searchLoop ds t (int startIndex) (int (length ds) - 1))"

text \<open>\<open>searchCurDanmaku(time)\<close> with the default \<open>startIndex = 0\<close>, as every caller has it.\<close>

definition searchCurDanmaku :: "real \<Rightarrow> CreepyBird \<Rightarrow> nat option" where
  "searchCurDanmaku t s = searchCurDanmakuFrom t 0 s"

section \<open>Lifecycle operations\<close>

definition startInterval :: "CreepyBird \<Rightarrow> CreepyBird" where
  "startInterval s = (case intervalId s of None \<Rightarrow> s\<lparr>intervalId := Some ()\<rparr> | Some _ \<Rightarrow> s)"

definition clearInterval :: "CreepyBird \<Rightarrow> CreepyBird" where
  "clearInterval s =
     (case intervalId s of
        None \<Rightarrow> s
      | Some _ \<Rightarrow> s\<lparr>intervalId := None, nextDanmakuIndex := None\<rparr>)"

text \<open>
  \<open>pause\<close> and \<open>resume\<close> walk over the queue of every line and call \<open>pause()\<close> or
  \<open>play()\<close> on the first animation of each queued element, when it has one.
\<close>

definition queuedElements :: "DanmakuLine list \<Rightarrow> nat list" where
  "queuedElements ls = concat (map (\<lambda>l. map element (queue l)) ls)"

definition setPlayState ::
  "PlayState \<Rightarrow> nat list \<Rightarrow> (nat \<Rightarrow> PlayState option) \<Rightarrow> nat \<Rightarrow> PlayState option" where
  "setPlayState p els anim =
     (\<lambda>e. if e \<in> set els then (case anim e of None \<Rightarrow> None | Some _ \<Rightarrow> Some p) else anim e)"

definition pause :: "CreepyBird \<Rightarrow> CreepyBird" where
  "pause s =
     (if state s \<noteq> Playing then s
      else
        (let s1 = clearInterval s;
             s2 = s1\<lparr>animations :=
                       setPlayState AnimPaused (queuedElements (danmakuLines s1)) (animations s1)\<rparr>
         in s2\<lparr>state := Paused\<rparr>))"

definition resume :: "CreepyBird \<Rightarrow> CreepyBird" where
  "resume s =
     (if state s \<noteq> Paused then s
      else
        (let s1 = startInterval s;
             s2 = s1\<lparr>animations :=
                       setPlayState Running (queuedElements (danmakuLines s1)) (animations s1)\<rparr>
         in s2\<lparr>state := Playing\<rparr>))"

definition show' :: "CreepyBird \<Rightarrow> CreepyBird" where
  "show' s =
     (if state s \<noteq> Hide then s
      else
        (let s1 = s\<lparr>isVisible := True\<rparr>;
             s2 = (case overlayElement s1 of
                     None \<Rightarrow> s1
                   | Some ov \<Rightarrow>
                       s1\<lparr>overlayElement := Some (ov\<lparr>styleDisplay := DisplayBlock\<rparr>)\<rparr>);
             s3 = startInterval s2;
             s4 = s3\<lparr>state := Playing\<rparr>
         in case videoElement s4 of
              None \<Rightarrow> s4
            | Some v \<Rightarrow> if paused v then pause s4 else s4))"

definition hide :: "CreepyBird \<Rightarrow> CreepyBird" where
  "hide s =
     (if state s = Empty then s
      else
        (let s1 = s\<lparr>isVisible := False\<rparr>;
             s2 = (case overlayElement s1 of
                     None \<Rightarrow> s1
                   | Some ov \<Rightarrow>
                       s1\<lparr>overlayElement := Some (ov\<lparr>styleDisplay := DisplayNone\<rparr>)\<rparr>);
             s3 = clearInterval s2
         in s3\<lparr>state := Hide\<rparr>))"


definition seek :: "real \<Rightarrow> CreepyBird \<Rightarrow> CreepyBird" where
  "seek t s = s\<lparr>nextDanmakuIndex := None\<rparr>"

text \<open>
  The setters return \<open>this\<close>; in the model the engine after the call stands for it.
  A \<open>throw\<close> is the left injection, paired with the engine as the exception leaves it.
\<close>

definition setFontSize :: "real \<Rightarrow> CreepyBird \<Rightarrow> (error + unit) \<times> CreepyBird" where
  "setFontSize size' s = (Inr (), s\<lparr>fontSize := size'\<rparr>)"

definition setLineMargin :: "real \<Rightarrow> CreepyBird \<Rightarrow> (error + unit) \<times> CreepyBird" where
  "setLineMargin margin s =
     (if margin < 0 then (Inl LineMarginNegative, s)
      else (Inr (), s\<lparr>lineMargin := margin\<rparr>))"

definition detach :: "CreepyBird \<Rightarrow> CreepyBird" where
  "detach s =
     (let s1 = clearInterval s
      in case videoElement s1 of
           None \<Rightarrow> s1
         | Some _ \<Rightarrow>
             s1\<lparr>resizeObserver := None, intersectionObserver := None, danmakuLines := [],
                overlayElement := None, videoElement := None, nextDanmakuIndex := None,
                activeDanmaku := {}, handlers := False, state := Empty\<rparr>)"

section \<open>Durations and the lane set\<close>

text \<open>
  \<open>calDanmakuDuration\<close>.  The result \<open>None\<close> stands for the non-finite quotient that
  JavaScript computes when \<open>danmakuSpeed\<close> is zero; every comparison
  \<open>displayTime >= duration\<close> against it is false.
\<close>

definition calDanmakuDuration :: "Danmaku \<Rightarrow> CreepyBird \<Rightarrow> real option" where
  "calDanmakuDuration d s =
     (case videoElement s of
        None \<Rightarrow> Some 0
      | Some v \<Rightarrow>
          if mode d = Float then
            (if danmakuSpeed s = 0 then None else Some (clientWidth v / danmakuSpeed s))
          else if mode d = Bottom \<or> mode d = Top then Some 5
          else Some 0)"

text \<open>
  \<open>calAvailableLines\<close> divides by \<open>Math.ceil(fontSize * lineSpacing)\<close>.  When that is
  zero JavaScript does not fail: the quotient is an infinity or NaN, and
  \<open>updateDanmakuLines\<close> goes on with it.  A product in \<open>(-1, 0)\<close> rounds to the
  negative zero.
\<close>

datatype LineCount = Lines int | PlusInfinity | MinusInfinity | NotANumber

definition calAvailableLines :: "CreepyBird \<Rightarrow> LineCount" where
  "calAvailableLines s =
     (case videoElement s of
        None \<Rightarrow> Lines 0
      | Some v \<Rightarrow>
          (let videoHeight = clientHeight v;
               lineHeight = \<lceil>fontSize s * lineSpacing s\<rceil>
           in if lineHeight \<noteq> 0 then Lines \<lfloor>videoHeight / real_of_int lineHeight\<rfloor>
              else if videoHeight = 0 then NotANumber
              else if (0 < videoHeight) = (0 \<le> fontSize s * lineSpacing s) then PlusInfinity
              else MinusInfinity))"

fun countEq :: "LineCount \<Rightarrow> nat \<Rightarrow> bool" where
  "countEq (Lines k) n = (k = int n)"
| "countEq _ n = False"

fun countLess :: "LineCount \<Rightarrow> nat \<Rightarrow> bool" where
  "countLess (Lines k) n = (k < int n)"
| "countLess MinusInfinity n = True"
| "countLess _ n = False"

fun countGreater :: "LineCount \<Rightarrow> nat \<Rightarrow> bool" where
  "countGreater (Lines k) n = (int n < k)"
| "countGreater PlusInfinity n = True"
| "countGreater _ n = False"

text \<open>
  The shrinking loop \<open>while (lines.length > availableLines) { line = lines.pop();
  line.clear(); }\<close>.  \<open>line.clear()\<close> empties the popped line, which nothing refers to
  afterwards, and touches no other field of the engine.  Once the array is empty
  \<open>pop()\<close> gives \<open>undefined\<close> and \<open>line.clear()\<close> is a TypeError.
\<close>

function shrinkLines :: "LineCount \<Rightarrow> DanmakuLine list \<Rightarrow> error + DanmakuLine list" where
  "shrinkLines target ls =
     (if countLess target (length ls) then
        (if ls = [] then Inl TypeError else shrinkLines target (butlast ls))
      else Inr ls)"
  by pat_completeness auto
termination
  by (relation "measure (\<lambda>(target, ls). length ls)") auto

text \<open>
  The growing loop \<open>while (lines.length < availableLines) lines.push(new DanmakuLine())\<close>
  does not end when the target is infinite: the result \<open>None\<close> is not returning.
\<close>

partial_function (option) growLines :: "LineCount \<Rightarrow> DanmakuLine list \<Rightarrow> DanmakuLine list option"
  where
  "growLines target ls =
     (if countGreater target (length ls) then growLines target (ls @ [newDanmakuLine])
      else Some ls)"

definition updateDanmakuLines :: "CreepyBird \<Rightarrow> ((error + unit) \<times> CreepyBird) option" where
  "updateDanmakuLines s =
     (let availableLines = calAvailableLines s;
          currentLines = length (danmakuLines s)
      in case videoElement s of
           None \<Rightarrow> Some (Inl TypeError, s)
         | Some v \<Rightarrow>
             if countEq availableLines currentLines then Some (Inr (), s)
             else if countLess availableLines currentLines then
               (case shrinkLines availableLines (danmakuLines s) of
                  Inl e \<Rightarrow> Some (Inl e, s\<lparr>danmakuLines := []\<rparr>)
                | Inr ls \<Rightarrow> Some (Inr (), s\<lparr>danmakuLines := ls\<rparr>))
             else
               (case growLines availableLines (danmakuLines s) of
                  None \<Rightarrow> None
                | Some ls \<Rightarrow> Some (Inr (), s\<lparr>danmakuLines := ls\<rparr>)))"

text \<open>
  \<open>attachToVideo\<close> creates the overlay at the \<open>left\<close> and with the \<open>width\<close> of the
  video's rectangle.  \<open>updatePosition\<close>, the callback of the two observers, reads the
  rectangle again, moves the overlay to it, now with the scroll offset of the page
  added, and calls \<open>updateDanmakuLines\<close>.
\<close>

definition attachToVideo :: "Video \<Rightarrow> CreepyBird \<Rightarrow> ((error + unit) \<times> CreepyBird) option" where
  "attachToVideo v s =
     (let s1 = (if state s \<noteq> Empty then detach s else s);
          s2 = s1\<lparr>videoElement := Some v,
                  overlayElement :=
                    Some \<lparr> styleDisplay = DisplayDefault, styleLeft = rectLeft v,
                           styleWidth = rectWidth v \<rparr>,
                  intersectionObserver := Some (), resizeObserver := Some (),
                  handlers := True\<rparr>
      in case updateDanmakuLines s2 of
           None \<Rightarrow> None
         | Some (Inl e, s3) \<Rightarrow> Some (Inl e, s3)
         | Some (Inr u, s3) \<Rightarrow> Some (Inr (), s3\<lparr>state := Hide\<rparr>))"

definition updatePosition :: "CreepyBird \<Rightarrow> ((error + unit) \<times> CreepyBird) option" where
  "updatePosition s =
     (case videoElement s of
        None \<Rightarrow> Some (Inl TypeError, s)
      | Some v \<Rightarrow>
          (case overlayElement s of
             None \<Rightarrow> Some (Inl TypeError, s)
           | Some ov \<Rightarrow>
               updateDanmakuLines
                 (s\<lparr>overlayElement :=
                      Some (ov\<lparr>styleLeft := rectLeft v + scrollLeft v,
                               styleWidth := rectWidth v\<rparr>)\<rparr>)))"

section \<open>Lane allocation\<close>

definition hasFixed :: "DanmakuLine \<Rightarrow> bool" where
  "hasFixed l = (fixedItem l \<noteq> None)"

text \<open>
  The loop over the (possibly reversed) copy of the lines.  \<open>_danmakuLines\<close> only ever
  receives fresh \<open>new DanmakuLine()\<close> objects, so its entries are pairwise different
  objects and \<open>this._danmakuLines.indexOf(lines[i])\<close> is the position that \<open>lines[i]\<close>
  has in \<open>_danmakuLines\<close>: the copy carries each line together with that position.
\<close>

fun firstWithoutFixed :: "(nat \<times> DanmakuLine) list \<Rightarrow> nat option" where
  "firstWithoutFixed [] = None"
| "firstWithoutFixed ((k, l) # rest) =
     (if \<not> hasFixed l then Some k else firstWithoutFixed rest)"

text \<open>The loop for a floating item, from line \<open>i\<close> on; \<open>ls\<close> are the lines not yet seen.\<close>

fun firstWithMargin :: "CreepyBird \<Rightarrow> real \<Rightarrow> nat \<Rightarrow> DanmakuLine list \<Rightarrow> nat option" where
  "firstWithMargin s videoWidth i [] = None"
| "firstWithMargin s videoWidth i (line # ls) =
     (if length (queue line) = 0 then Some i
      else
        (let lastItem = last (queue line);
             rightEdge = rectRight s (element lastItem);
             margin = videoWidth - rightEdge
         in if lineMargin s \<le> margin then Some i
            else firstWithMargin s videoWidth (Suc i) ls))"

definition pickLine :: "DanmakuItem \<Rightarrow> CreepyBird \<Rightarrow> error + nat option" where
  "pickLine danmakuItem s =
     (if length (danmakuLines s) = 0 then Inr None
      else if mode (danmaku danmakuItem) = Bottom \<or> mode (danmaku danmakuItem) = Top then
        (let lines = zip [0..<length (danmakuLines s)] (danmakuLines s);
             lines' = (if mode (danmaku danmakuItem) = Bottom then rev lines else lines)
         in Inr (firstWithoutFixed lines'))
      else
        (case videoElement s of
           None \<Rightarrow> Inl TypeError
         | Some v \<Rightarrow> Inr (firstWithMargin s (clientWidth v) 0 (danmakuLines s))))"

section \<open>The tick: activation and cleanup\<close>

text \<open>
  \<open>new DanmakuItem(danmaku, this)\<close> throws when the engine has no overlay, and
  otherwise creates a fresh element under the overlay.
\<close>

definition newDanmakuItem :: "Danmaku \<Rightarrow> CreepyBird \<Rightarrow> (error + DanmakuItem) \<times> CreepyBird" where
  "newDanmakuItem d s =
     (case overlayElement s of
        None \<Rightarrow> (Inl OverlayNotInitialized, s)
      | Some _ \<Rightarrow>
          (Inr \<lparr> danmaku = d, element = nextElement s \<rparr>,
           s\<lparr>nextElement := Suc (nextElement s)\<rparr>))"

definition push :: "DanmakuItem \<Rightarrow> DanmakuLine \<Rightarrow> DanmakuLine" where
  "push item l = l\<lparr>queue := queue l @ [item]\<rparr>"

definition setFixed :: "DanmakuItem \<Rightarrow> DanmakuLine \<Rightarrow> DanmakuLine" where
  "setFixed item l = l\<lparr>fixedItem := Some item\<rparr>"

text \<open>
  The index that one round of the \<open>while (true)\<close> loop looks at: the cursor when it is
  set and inside the collection, the result of the binary search otherwise.  Without a
  collection \<open>this._data.length\<close> is a TypeError, unless the cursor is \<open>null\<close> and the
  test stops before it.
\<close>

definition candidate :: "real \<Rightarrow> CreepyBird \<Rightarrow> error + nat option" where
  "candidate currentTime' s =
     (case nextDanmakuIndex s of
        None \<Rightarrow> Inr (searchCurDanmaku currentTime' s)
      | Some n \<Rightarrow>
          (case data s of
             None \<Rightarrow> Inl TypeError
           | Some ds \<Rightarrow>
               if n < length ds then Inr (Some n) else Inr (searchCurDanmaku currentTime' s)))"

text \<open>
  One round of the loop of \<open>loadDanmaku\<close>: it ends in \<open>continue\<close> (or the end of the
  body), in \<open>break\<close>, or in an exception; each carries the engine as the round leaves it.
\<close>

datatype Round = Continue CreepyBird | Break CreepyBird | Throw error CreepyBird

definition activate :: "Danmaku \<Rightarrow> DanmakuItem \<Rightarrow> nat \<Rightarrow> CreepyBird \<Rightarrow> Round" where
  "activate d danmakuItem lineIndex s =
     (let s1 = s\<lparr>activeDanmaku := insert (ref d) (activeDanmaku s)\<rparr>;
          line = danmakuLines s1 ! lineIndex
      in case videoElement s1 of
           None \<Rightarrow> Throw TypeError s1
         | Some v \<Rightarrow>
             if mode d = Float then
               Continue (s1\<lparr>danmakuLines := (danmakuLines s1)[lineIndex := push danmakuItem line]\<rparr>)
             else
               Continue (s1\<lparr>danmakuLines :=
                              (danmakuLines s1)[lineIndex := setFixed danmakuItem line]\<rparr>))"

definition loadDanmakuRound :: "real \<Rightarrow> CreepyBird \<Rightarrow> Round" where
  "loadDanmakuRound currentTime' s =
     (case candidate currentTime' s of
        Inl e \<Rightarrow> Throw e s
      | Inr None \<Rightarrow> Break s
      | Inr (Some index) \<Rightarrow>
          (case data s of
             None \<Rightarrow> Throw TypeError s
           | Some ds \<Rightarrow>
               (let d = ds ! index
                in if ref d \<in> activeDanmaku s then
                     Continue (s\<lparr>nextDanmakuIndex := Some (index + 1)\<rparr>)
                   else
                     (let timeDiff = \<bar>time d - currentTime'\<bar>
                      in if 1 / 10 < timeDiff then Break s
                         else
                           (let s1 = s\<lparr>nextDanmakuIndex := Some (index + 1)\<rparr>
                            in case newDanmakuItem d s1 of
                                 (Inl e, s2) \<Rightarrow> Throw e s2
                               | (Inr danmakuItem, s2) \<Rightarrow>
                                   (case pickLine danmakuItem s2 of
                                      Inl e \<Rightarrow> Throw e s2
                                    | Inr None \<Rightarrow> Continue s2
                                    | Inr (Some lineIndex) \<Rightarrow>
                                        activate d danmakuItem lineIndex s2))))))"

text \<open>
  The loop has no bound of its own, so it runs on fuel: \<open>None\<close> means that the given
  number of rounds did not reach a \<open>break\<close> or an exception.
\<close>

fun loadDanmakuLoop :: "nat \<Rightarrow> real \<Rightarrow> CreepyBird \<Rightarrow> ((error + unit) \<times> CreepyBird) option" where
  "loadDanmakuLoop 0 currentTime' s = None"
| "loadDanmakuLoop (Suc fuel) currentTime' s =
     (case loadDanmakuRound currentTime' s of
        Continue s' \<Rightarrow> loadDanmakuLoop fuel currentTime' s'
      | Break s' \<Rightarrow> Some (Inr (), s')
      | Throw e s' \<Rightarrow> Some (Inl e, s'))"

definition loadDanmaku :: "nat \<Rightarrow> real \<Rightarrow> CreepyBird \<Rightarrow> ((error + unit) \<times> CreepyBird) option" where
  "loadDanmaku fuel currentTime' s =
     (if data s = None then Some (Inr (), s)
      else if \<not> isVisible s then Some (Inr (), s)
      else loadDanmakuLoop fuel currentTime' s)"

text \<open>
  Cleanup of one line.  The queue is emptied from the front while the front element's
  animation is finished or absent; every removal deletes the annotation from the
  registry.  The fixed item goes when it has been shown for its duration.
\<close>

definition animationDone :: "CreepyBird \<Rightarrow> DanmakuItem \<Rightarrow> bool" where
  "animationDone s item =
     (case animations s (element item) of None \<Rightarrow> True | Some p \<Rightarrow> p = Finished)"

fun cleanupQueue ::
  "CreepyBird \<Rightarrow> DanmakuItem list \<Rightarrow> nat set \<Rightarrow> DanmakuItem list \<times> nat set" where
  "cleanupQueue s [] active = ([], active)"
| "cleanupQueue s (frontItem # rest) active =
     (if animationDone s frontItem
      then cleanupQueue s rest (active - {ref (danmaku frontItem)})
      else (frontItem # rest, active))"

definition fixedExpired :: "CreepyBird \<Rightarrow> real \<Rightarrow> DanmakuItem \<Rightarrow> bool" where
  "fixedExpired s currentTime' item =
     (let displayTime = currentTime' - time (danmaku item)
      in case calDanmakuDuration (danmaku item) s of
           None \<Rightarrow> False
         | Some duration \<Rightarrow> duration \<le> displayTime)"

definition cleanupLine ::
  "CreepyBird \<Rightarrow> real \<Rightarrow> DanmakuLine \<Rightarrow> nat set \<Rightarrow> DanmakuLine \<times> nat set" where
  "cleanupLine s currentTime' line active =
     (case cleanupQueue s (queue line) active of
        (q, active1) \<Rightarrow>
          (case fixedItem line of
             None \<Rightarrow> (line\<lparr>queue := q\<rparr>, active1)
           | Some item \<Rightarrow>
               if fixedExpired s currentTime' item
               then (line\<lparr>queue := q, fixedItem := None\<rparr>, active1 - {ref (danmaku item)})
               else (line\<lparr>queue := q\<rparr>, active1)))"

fun cleanupLines ::
  "CreepyBird \<Rightarrow> real \<Rightarrow> DanmakuLine list \<Rightarrow> nat set \<Rightarrow> DanmakuLine list \<times> nat set" where
  "cleanupLines s currentTime' [] active = ([], active)"
| "cleanupLines s currentTime' (line # ls) active =
     (case cleanupLine s currentTime' line active of
        (line', active1) \<Rightarrow>
          (case cleanupLines s currentTime' ls active1 of
             (ls', active2) \<Rightarrow> (line' # ls', active2)))"

definition cleanupDanmaku :: "CreepyBird \<Rightarrow> CreepyBird" where
  "cleanupDanmaku s =
     (if \<not> isVisible s then s
      else
        (case videoElement s of
           None \<Rightarrow> s
         | Some v \<Rightarrow>
             (case cleanupLines s (currentTime v) (danmakuLines s) (activeDanmaku s) of
                (ls, active) \<Rightarrow> s\<lparr>danmakuLines := ls, activeDanmaku := active\<rparr>)))"

text \<open>The body of the timer that \<open>_startInterval\<close> arms, every 100 ms.\<close>

definition tick :: "nat \<Rightarrow> CreepyBird \<Rightarrow> ((error + unit) \<times> CreepyBird) option" where
  "tick fuel s =
     (case videoElement s of
        None \<Rightarrow> Some (Inr (), s)
      | Some v \<Rightarrow>
          (case loadDanmaku fuel (currentTime v) s of
             None \<Rightarrow> None
           | Some (Inl e, s1) \<Rightarrow> Some (Inl e, s1)
           | Some (Inr u, s1) \<Rightarrow> Some (Inr (), cleanupDanmaku s1)))"

section \<open>Loading a collection\<close>

text \<open>
  A raw annotation is the tuple \<open>[time, mode, color, userId, text]\<close>.  The request of
  \<open>_load\<close> ends in \<open>onerror\<close> or in \<open>onload\<close> with a status and a body; the body is
  parsed JSON \<open>{code, data}\<close> or text, as the \<open>responseType\<close> chosen from the URL
  says.  A promise is the sum of its rejection and its value.
\<close>

type_synonym RawTuple = "real \<times> int \<times> string \<times> string \<times> string"

datatype Payload = Tuples "RawTuple list" | RawText string

datatype XhrBody = JsonBody int "RawTuple list" | TextBody string

datatype XhrResult = XhrError | XhrLoad int XhrBody

definition load' :: "XhrResult \<Rightarrow> error + Payload" where
  "load' xhr =
     (case xhr of
        XhrError \<Rightarrow> Inl NetworkRequestFailed
      | XhrLoad status body \<Rightarrow>
          if status = 200 then
            (case body of
               JsonBody code d \<Rightarrow> if code = 0 then Inr (Tuples d) else Inl (InvalidResponseCode code)
             | TextBody t \<Rightarrow> Inr (RawText t))
          else Inl (HttpError status))"

text \<open>\<open>Danmaku._validateMode\<close>: the mode is one of \<open>DanmakuType\<close>'s values 0, 1, 2.\<close>

definition validateMode :: "int \<Rightarrow> error + DanmakuType" where
  "validateMode m =
     (if m = 0 then Inr Float
      else if m = 1 then Inr Bottom
      else if m = 2 then Inr Top
      else Inl InvalidDanmakuMode)"

text \<open>
  \<open>data.map(([time, mode, color, userId, text]) => new Danmaku(...))\<close>: the objects are
  created in the order of the input, each with a fresh reference, and the first invalid
  mode throws.
\<close>

fun newDanmakus :: "nat \<Rightarrow> RawTuple list \<Rightarrow> error + Danmaku list" where
  "newDanmakus r [] = Inr []"
| "newDanmakus r ((t, m, c, u, x) # rest) =
     (case validateMode m of
        Inl e \<Rightarrow> Inl e
      | Inr m' \<Rightarrow>
          (case newDanmakus (Suc r) rest of
             Inl e \<Rightarrow> Inl e
           | Inr ds \<Rightarrow>
               Inr (\<lparr> ref = r, time = t, mode = m', color = c, userId = u, text' = x \<rparr> # ds)))"

definition toLowerCase :: "string \<Rightarrow> string" where
  "toLowerCase str =
     map (\<lambda>c. if 65 \<le> (of_char c :: nat) \<and> (of_char c :: nat) \<le> 90
              then char_of ((of_char c :: nat) + 32) else c) str"

text \<open>
  The decoder is a parameter: \<open>parse\<close> gives the \<open>code\<close> and the \<open>data\<close> of the object
  that \<open>parser.parse(data)\<close> returns.  Without a decoder the data must be an array:
  \<open>data.map\<close> of a text is a TypeError.
\<close>

definition decode ::
  "string \<Rightarrow> (Payload \<Rightarrow> int \<times> RawTuple list) \<Rightarrow> Payload \<Rightarrow> error + RawTuple list" where
  "decode format parse payload =
     (if toLowerCase format = ''bilibilixml'' then
        (case parse payload of
           (code, d) \<Rightarrow> if code \<noteq> 0 then Inl FailedToParseXML else Inr d)
      else
        (case payload of
           Tuples d \<Rightarrow> Inr d
         | RawText t \<Rightarrow> Inl TypeError))"

text \<open>
  \<open>load\<close> is asynchronous.  The call remembers the state, hides a Playing or Paused
  engine and starts the request (\<open>loadStart\<close>); the \<open>then\<close> handler runs when the
  request has ended, on the engine as it is at that moment, with the remembered
  \<open>previousState\<close> (\<open>loadSettle\<close>); a rejected request skips the handler.  Other
  operations may run in between.  \<open>Array.prototype.sort\<close> with the comparator
  \<open>a.time - b.time\<close> is the stable sort by \<open>time\<close> of ECMAScript 2019, here
  \<^const>\<open>sort_key\<close>.
\<close>

definition loadStart :: "CreepyBird \<Rightarrow> CreepyBirdState \<times> CreepyBird" where
  "loadStart s =
     (let previousState = state s
      in (previousState,
          if previousState \<noteq> Empty \<and> previousState \<noteq> Hide then hide s else s))"

definition loadSettle ::
  "CreepyBirdState \<Rightarrow> string \<Rightarrow> (Payload \<Rightarrow> int \<times> RawTuple list) \<Rightarrow> XhrResult
     \<Rightarrow> CreepyBird \<Rightarrow> (error + Danmaku list) \<times> CreepyBird" where
  "loadSettle previousState format parse xhr s =
     (case load' xhr of
        Inl e \<Rightarrow> (Inl e, s)
      | Inr payload \<Rightarrow>
          (case decode format parse payload of
             Inl e \<Rightarrow> (Inl e, s)
           | Inr tuples \<Rightarrow>
               (case newDanmakus (nextRef s) tuples of
                  Inl e \<Rightarrow> (Inl e, s)
                | Inr ds \<Rightarrow>
                    (let s2 = s\<lparr>data := Some (sort_key time ds),
                                 nextRef := nextRef s + length tuples\<rparr>;
                         s3 = (if previousState = Playing then (show' s2)\<lparr>state := Playing\<rparr>
                               else if previousState = Paused
                               then (pause (show' s2))\<lparr>state := Paused\<rparr>
                               else s2)
                     in (Inr (sort_key time ds), s3)))))"

text \<open>\<open>load\<close> with nothing between the call and the end of the request.\<close>

definition load ::
  "string \<Rightarrow> (Payload \<Rightarrow> int \<times> RawTuple list) \<Rightarrow> XhrResult \<Rightarrow> CreepyBird
     \<Rightarrow> (error + Danmaku list) \<times> CreepyBird" where
  "load format parse xhr s =
     (case loadStart s of
        (previousState, s1) \<Rightarrow> loadSettle previousState format parse xhr s1)"

section \<open>Operations as data\<close>

text \<open>
  The operations that reach the engine from outside: the public methods, the timer
  (\<open>Tick\<close>, which fires while \<open>_intervalId\<close> is set) and the callback of the two
  observers (\<open>Resize\<close>: the video has the given geometry now and \<open>updatePosition\<close>
  runs; it exists while the observers do).  \<open>Load\<close> is a load whose request ends
  before anything else happens.  \<open>LoadCall\<close> is the call of \<open>load\<close> alone, which
  leaves a pending promise, and \<open>LoadSettle\<close> is the end of the request of the
  pending promise with the given number.  \<open>Layout\<close> is the browser at work: the
  elements have the given animation states and right edges now.  \<open>exec\<close> gives the
  engine after the operation, whether it returned or threw, and \<open>None\<close> when it does
  not return.
\<close>

datatype Operation =
    Attach Video
  | Detach
  | Load string "Payload \<Rightarrow> int \<times> RawTuple list" XhrResult
  | Show
  | HideCall
  | Pause
  | Resume
  | Seek real
  | SetFontSize real
  | SetLineMargin real
  | Tick nat
  | Resize Video
  | LoadCall string
  | LoadSettle nat "Payload \<Rightarrow> int \<times> RawTuple list" XhrResult
  | Layout "nat \<Rightarrow> PlayState option" "nat \<Rightarrow> real"

fun exec :: "Operation \<Rightarrow> CreepyBird \<Rightarrow> CreepyBird option" where
  "exec (Attach v) s = map_option snd (attachToVideo v s)"
| "exec Detach s = Some (detach s)"
| "exec (Load format parse xhr) s = Some (snd (load format parse xhr s))"
| "exec Show s = Some (show' s)"
| "exec HideCall s = Some (hide s)"
| "exec Pause s = Some (pause s)"
| "exec Resume s = Some (resume s)"
| "exec (Seek t) s = Some (seek t s)"
| "exec (SetFontSize n) s = Some (snd (setFontSize n s))"
| "exec (SetLineMargin n) s = Some (snd (setLineMargin n s))"
| "exec (Tick fuel) s =
     (case intervalId s of
        None \<Rightarrow> Some s
      | Some u \<Rightarrow> map_option snd (tick fuel s))"
| "exec (Resize v) s =
     (case resizeObserver s of
        None \<Rightarrow> Some s
      | Some u \<Rightarrow> map_option snd (updatePosition (s\<lparr>videoElement := Some v\<rparr>)))"
| "exec (LoadCall format) s =
     (case loadStart s of
        (previousState, s1) \<Rightarrow>
          Some (s1\<lparr>pendingLoads := pendingLoads s1 @ [(previousState, format)]\<rparr>))"
| "exec (LoadSettle i parse xhr) s =
     (if i < length (pendingLoads s) then
        (case pendingLoads s ! i of
           (previousState, format) \<Rightarrow>
             Some (snd (loadSettle previousState format parse xhr
                          (s\<lparr>pendingLoads :=
                               take i (pendingLoads s) @ drop (Suc i) (pendingLoads s)\<rparr>))))
      else Some s)"
| "exec (Layout anim rects) s = Some (s\<lparr>animations := anim, rectRight := rects\<rparr>)"

fun execAll :: "Operation list \<Rightarrow> CreepyBird \<Rightarrow> CreepyBird option" where
  "execAll [] s = Some s"
| "execAll (op # ops) s = (case exec op s of None \<Rightarrow> None | Some s' \<Rightarrow> execAll ops s')"



section \<open>Notions of the specification\<close>

text \<open>The annotations that the lines show: each queue entry and each fixed item.\<close>

definition lineRefs :: "DanmakuLine \<Rightarrow> nat set" where
  "lineRefs l =
     set (map (\<lambda>i. ref (danmaku i)) (queue l))
       \<union> (case fixedItem l of None \<Rightarrow> {} | Some i \<Rightarrow> {ref (danmaku i)})"

definition visibleRefs :: "CreepyBird \<Rightarrow> nat set" where
  "visibleRefs s = \<Union> (set (map lineRefs (danmakuLines s)))"

text \<open>
  \<open>r\<close> is the leftmost index of \<open>ds\<close> whose time is at least \<open>t\<close>, or none when every
  time is smaller.
\<close>

definition leftmostDue :: "Danmaku list \<Rightarrow> real \<Rightarrow> nat option \<Rightarrow> bool" where
  "leftmostDue ds t r =
     (case r of
        None \<Rightarrow> (\<forall>i<length ds. time (ds ! i) < t)
      | Some k \<Rightarrow> k < length ds \<and> t \<le> time (ds ! k) \<and> (\<forall>i<k. time (ds ! i) < t))"

text \<open>
  The far edge of the overlay, where the floating items enter, in the coordinates of
  the viewport: the overlay begins at \<open>left\<close> on the page, and the page is scrolled
  by \<open>scrollLeft\<close>.  The gap that the last item of a line leaves is the distance from
  its right edge, which \<open>getBoundingClientRect\<close> gives in the same coordinates, to the
  far edge.  A line takes a floating item when its queue is empty or that gap is at
  least the line margin.
\<close>

definition farEdge :: "Overlay \<Rightarrow> Video \<Rightarrow> real" where
  "farEdge ov v = styleLeft ov - scrollLeft v + styleWidth ov"

definition gapToFarEdge :: "CreepyBird \<Rightarrow> Overlay \<Rightarrow> Video \<Rightarrow> DanmakuLine \<Rightarrow> real" where
  "gapToFarEdge s ov v l = farEdge ov v - rectRight s (element (last (queue l)))"

definition laneUsable :: "CreepyBird \<Rightarrow> Overlay \<Rightarrow> Video \<Rightarrow> DanmakuLine \<Rightarrow> bool" where
  "laneUsable s ov v l = (queue l = [] \<or> lineMargin s \<le> gapToFarEdge s ov v l)"

text \<open>
  The test that \<open>pickLine\<close> applies instead: the width of the video minus the right
  edge of the last item.
\<close>

definition lineAccepted :: "CreepyBird \<Rightarrow> real \<Rightarrow> DanmakuLine \<Rightarrow> bool" where
  "lineAccepted s videoWidth l =
     (queue l = [] \<or> lineMargin s \<le> videoWidth - rectRight s (element (last (queue l))))"

text \<open>\<open>r\<close> is the smallest (the largest) index of \<open>xs\<close> with \<open>P\<close>, or none when there is none.\<close>

definition firstIndex :: "('a \<Rightarrow> bool) \<Rightarrow> 'a list \<Rightarrow> nat option \<Rightarrow> bool" where
  "firstIndex P xs r =
     (case r of
        None \<Rightarrow> (\<forall>i<length xs. \<not> P (xs ! i))
      | Some i \<Rightarrow> i < length xs \<and> P (xs ! i) \<and> (\<forall>j<i. \<not> P (xs ! j)))"

definition lastIndex :: "('a \<Rightarrow> bool) \<Rightarrow> 'a list \<Rightarrow> nat option \<Rightarrow> bool" where
  "lastIndex P xs r =
     (case r of
        None \<Rightarrow> (\<forall>i<length xs. \<not> P (xs ! i))
      | Some i \<Rightarrow>
          i < length xs \<and> P (xs ! i) \<and> (\<forall>j. i < j \<and> j < length xs \<longrightarrow> \<not> P (xs ! j)))"



section \<open>Example engines\<close>

text \<open>
  A video 58 pixels high gives two lines of 29 pixels.  The engine is attached to it,
  loads a bottom annotation due at 0 s and a floating one due at 100 s, is shown, and
  runs one tick at 0 s; then the video shrinks to 30 pixels, which is one line.
\<close>

definition demoVideo :: Video where
  "demoVideo =
     \<lparr> currentTime = 0, paused = False, clientWidth = 640, clientHeight = 58,
       rectLeft = 0, rectWidth = 640, scrollLeft = 0 \<rparr>"

definition demoTuples :: "RawTuple list" where
  "demoTuples = [(0, 1, ''#ffffff'', ''u1'', ''bottom''), (100, 0, ''#ffffff'', ''u2'', ''late'')]"

definition d0 :: Danmaku where
  "d0 = \<lparr> ref = 0, time = 0, mode = Bottom, color = ''#ffffff'', userId = ''u1'',
          text' = ''bottom'' \<rparr>"

definition d1 :: Danmaku where
  "d1 = \<lparr> ref = 1, time = 100, mode = Float, color = ''#ffffff'', userId = ''u2'',
          text' = ''late'' \<rparr>"

definition item0 :: DanmakuItem where
  "item0 = \<lparr> danmaku = d0, element = 0 \<rparr>"

definition noParse :: "Payload \<Rightarrow> int \<times> RawTuple list" where
  "noParse p = (0, [])"

definition attachedEngine :: CreepyBird where
  "attachedEngine =
     (case attachToVideo demoVideo constructor of Some (r, s) \<Rightarrow> s | None \<Rightarrow> constructor)"

definition loadedEngine :: CreepyBird where
  "loadedEngine =
     snd (load ''json'' noParse (XhrLoad 200 (JsonBody 0 demoTuples)) attachedEngine)"

definition playingEngine :: CreepyBird where
  "playingEngine = show' loadedEngine"

definition tickedEngine :: CreepyBird where
  "tickedEngine = (case tick 2 playingEngine of Some (r, s) \<Rightarrow> s | None \<Rightarrow> playingEngine)"

definition smallerVideo :: Video where
  "smallerVideo = demoVideo\<lparr>clientHeight := 30\<rparr>"

definition resizedEngine :: CreepyBird where
  "resizedEngine =
     (case exec (Resize smallerVideo) tickedEngine of Some s \<Rightarrow> s | None \<Rightarrow> tickedEngine)"

text \<open>
  A video 20 pixels high has no line at all.  The engine is attached to it at 1 s,
  loads one floating annotation due at 1 s, and is shown.
\<close>

definition lowVideo :: Video where
  "lowVideo =
     \<lparr> currentTime = 1, paused = False, clientWidth = 640, clientHeight = 20,
       rectLeft = 0, rectWidth = 640, scrollLeft = 0 \<rparr>"

definition lastDanmaku :: Danmaku where
  "lastDanmaku = \<lparr> ref = 0, time = 1, mode = Float, color = ''#ffffff'', userId = ''u1'',
                   text' = ''last'' \<rparr>"

definition stuckEngine :: CreepyBird where
  "stuckEngine =
     show' (snd (load ''json'' noParse
                   (XhrLoad 200 (JsonBody 0 [(1, 0, ''#ffffff'', ''u1'', ''last'')]))
                   (case attachToVideo lowVideo constructor of
                      Some (r, s) \<Rightarrow> s | None \<Rightarrow> constructor)))"

definition droppedEngine :: CreepyBird where
  "droppedEngine = stuckEngine\<lparr>nextDanmakuIndex := Some (Suc 0), nextElement := Suc 0\<rparr>"

text \<open>Three annotations with the same time.\<close>

definition tieData :: "Danmaku list" where
  "tieData =
     map (\<lambda>r. \<lparr> ref = r, time = 1, mode = Float, color = ''#ffffff'', userId = ''u'',
                 text' = ''tie'' \<rparr>) [0, 1, 2]"

definition tieEngine :: CreepyBird where
  "tieEngine = constructor\<lparr>data := Some tieData\<rparr>"

text \<open>
  A video that stands 100 pixels from the left edge of the viewport, 640 pixels wide
  and 58 pixels high.  The engine is attached to it, loads two floating annotations,
  due at 0 s and at 100 s, is shown and runs one tick at 0 s, which puts the first
  annotation into the first line.  At that moment the element is to the right of the
  overlay; later its right edge is at 640 pixels of the viewport, 100 pixels before
  the far edge of the overlay at 740.
\<close>

definition offsetVideo :: Video where
  "offsetVideo =
     \<lparr> currentTime = 0, paused = False, clientWidth = 640, clientHeight = 58,
       rectLeft = 100, rectWidth = 640, scrollLeft = 0 \<rparr>"

definition floatTuples :: "RawTuple list" where
  "floatTuples = [(0, 0, ''#ffffff'', ''u1'', ''first''), (100, 0, ''#ffffff'', ''u2'', ''second'')]"

definition f0 :: Danmaku where
  "f0 = \<lparr> ref = 0, time = 0, mode = Float, color = ''#ffffff'', userId = ''u1'',
          text' = ''first'' \<rparr>"

definition f1 :: Danmaku where
  "f1 = \<lparr> ref = 1, time = 100, mode = Float, color = ''#ffffff'', userId = ''u2'',
          text' = ''second'' \<rparr>"

definition offsetOverlay :: Overlay where
  "offsetOverlay = \<lparr> styleDisplay = DisplayBlock, styleLeft = 100, styleWidth = 640 \<rparr>"

definition offsetEngine :: CreepyBird where
  "offsetEngine =
     (case execAll [Layout (\<lambda>e. Some Running) (\<lambda>e. 800), Attach offsetVideo,
                    Load ''json'' noParse (XhrLoad 200 (JsonBody 0 floatTuples)), Show, Tick 2,
                    Layout (\<lambda>e. Some Running) (\<lambda>e. 640)] constructor
      of Some s \<Rightarrow> s | None \<Rightarrow> constructor)"




text \<open>
  What holds of every engine that the operations reach from the constructor when each
  load settles before anything else happens: outside the state Empty there is a
  video, lines exist only with a video, and a Playing or Paused engine is shown.
\<close>

fun isPending :: "Operation \<Rightarrow> bool" where
  "isPending (LoadCall format) = True"
| "isPending (LoadSettle i parse xhr) = True"
| "isPending _ = False"

definition engineInv :: "CreepyBird \<Rightarrow> bool" where
  "engineInv s =
     ((state s = Empty \<or> videoElement s \<noteq> None)
      \<and> (danmakuLines s = [] \<or> videoElement s \<noteq> None)
      \<and> (state s = Empty \<or> state s = Hide \<or> isVisible s))"

text \<open>
  The annotations of the lines as a list, lane by lane, and the agreement of the
  registry with it: no annotation is shown twice, and the registry is the set of the
  annotations shown.
\<close>

definition lineRefList :: "DanmakuLine \<Rightarrow> nat list" where
  "lineRefList l =
     map (\<lambda>i. ref (danmaku i)) (queue l)
       @ (case fixedItem l of None \<Rightarrow> [] | Some i \<Rightarrow> [ref (danmaku i)])"

definition laneRefList :: "DanmakuLine list \<Rightarrow> nat list" where
  "laneRefList ls = concat (map lineRefList ls)"

definition registryAgrees :: "CreepyBird \<Rightarrow> bool" where
  "registryAgrees s =
     (distinct (laneRefList (danmakuLines s))
      \<and> activeDanmaku s = set (laneRefList (danmakuLines s)))"

fun isResize :: "Operation \<Rightarrow> bool" where
  "isResize (Resize v) = True"
| "isResize _ = False"

text \<open>
  The invariant of the engines that are reached without a resize: lines exist only
  with a video, registry and lines agree, and there is no line in the state Empty.
\<close>

definition laneInv :: "CreepyBird \<Rightarrow> bool" where
  "laneInv s =
     ((danmakuLines s = [] \<or> videoElement s \<noteq> None) \<and> registryAgrees s
      \<and> (danmakuLines s = [] \<or> state s \<noteq> Empty))"

declare searchLoop.simps [simp del]
declare shrinkLines.simps [simp del]

section \<open>The example engines, evaluated\<close>

lemma demo_fields:
  "time d0 = 0" "time d1 = 100" "ref d0 = 0" "ref d1 = 1" "mode d0 = Bottom" "mode d1 = Float"
  by (simp_all add: d0_def d1_def)

lemma attachToVideo_demo: "attachToVideo demoVideo constructor = Some (Inr (), attachedEngine)"
  by (simp add: attachedEngine_def attachToVideo_def updateDanmakuLines_def calAvailableLines_def
      constructor_def demoVideo_def Let_def growLines.simps)

lemma attachedEngine_eq:
  "attachedEngine =
     constructor\<lparr>videoElement := Some demoVideo,
                 overlayElement :=
                   Some \<lparr> styleDisplay = DisplayDefault, styleLeft = 0, styleWidth = 640 \<rparr>,
                 intersectionObserver := Some (), resizeObserver := Some (), handlers := True,
                 danmakuLines := [newDanmakuLine, newDanmakuLine], state := Hide\<rparr>"
  by (simp add: attachedEngine_def attachToVideo_def updateDanmakuLines_def calAvailableLines_def
      constructor_def demoVideo_def Let_def growLines.simps)

lemma newDanmakus_demo: "newDanmakus 0 demoTuples = Inr [d0, d1]"
  by (simp add: demoTuples_def validateMode_def d0_def d1_def)

lemma load_demo:
  "load ''json'' noParse (XhrLoad 200 (JsonBody 0 demoTuples)) attachedEngine
     = (Inr [d0, d1], attachedEngine\<lparr>data := Some [d0, d1], nextRef := 2\<rparr>)"
  by (simp add: load_def loadStart_def loadSettle_def load'_def decode_def toLowerCase_def
      attachedEngine_eq constructor_def newDanmakus_demo demo_fields Let_def)
    (simp add: demoTuples_def)

lemma loadedEngine_eq: "loadedEngine = attachedEngine\<lparr>data := Some [d0, d1], nextRef := 2\<rparr>"
  by (simp add: loadedEngine_def load_demo)

lemma playingEngine_eq:
  "playingEngine =
     loadedEngine\<lparr>isVisible := True,
                  overlayElement :=
                    Some \<lparr> styleDisplay = DisplayBlock, styleLeft = 0, styleWidth = 640 \<rparr>,
                  intervalId := Some (), state := Playing\<rparr>"
  by (simp add: playingEngine_def show'_def loadedEngine_eq attachedEngine_eq constructor_def
      startInterval_def Let_def demoVideo_def)

lemma playingEngine_fields:
  "videoElement playingEngine = Some demoVideo" "data playingEngine = Some [d0, d1]"
  "isVisible playingEngine" "state playingEngine = Playing"
  "nextDanmakuIndex playingEngine = None" "activeDanmaku playingEngine = {}"
  by (simp_all add: playingEngine_eq loadedEngine_eq attachedEngine_eq constructor_def)

lemma round_playing:
  "loadDanmakuRound 0 playingEngine
     = Continue (playingEngine\<lparr>nextDanmakuIndex := Some (Suc 0), nextElement := Suc 0,
                   activeDanmaku := {0},
                   danmakuLines := [newDanmakuLine, newDanmakuLine\<lparr>fixedItem := Some item0\<rparr>]\<rparr>)"
  by (simp add: loadDanmakuRound_def candidate_def searchCurDanmaku_def searchCurDanmakuFrom_def
      searchLoop.simps playingEngine_eq loadedEngine_eq attachedEngine_eq constructor_def
      demo_fields Let_def newDanmakuItem_def pickLine_def hasFixed_def newDanmakuLine_def
      activate_def setFixed_def item0_def demoVideo_def)

lemma round_activated:
  "loadDanmakuRound 0
     (playingEngine\<lparr>nextDanmakuIndex := Some (Suc 0), nextElement := Suc 0,
        activeDanmaku := {0},
        danmakuLines := [newDanmakuLine, newDanmakuLine\<lparr>fixedItem := Some item0\<rparr>]\<rparr>)
   = Break (playingEngine\<lparr>nextDanmakuIndex := Some (Suc 0), nextElement := Suc 0,
        activeDanmaku := {0},
        danmakuLines := [newDanmakuLine, newDanmakuLine\<lparr>fixedItem := Some item0\<rparr>]\<rparr>)"
  by (simp add: loadDanmakuRound_def candidate_def playingEngine_eq loadedEngine_eq demo_fields
      Let_def)

lemma tick_playing:
  "tick 2 playingEngine
     = Some (Inr (), playingEngine\<lparr>nextDanmakuIndex := Some (Suc 0), nextElement := Suc 0,
               activeDanmaku := {0},
               danmakuLines := [newDanmakuLine, newDanmakuLine\<lparr>fixedItem := Some item0\<rparr>]\<rparr>)"
proof -
  let ?s = "playingEngine\<lparr>nextDanmakuIndex := Some (Suc 0), nextElement := Suc 0,
               activeDanmaku := {0},
               danmakuLines := [newDanmakuLine, newDanmakuLine\<lparr>fixedItem := Some item0\<rparr>]\<rparr>"
  have l: "loadDanmaku 2 0 playingEngine = Some (Inr (), ?s)"
    by (simp add: loadDanmaku_def playingEngine_fields numeral_2_eq_2 round_playing
        round_activated)
  have c: "cleanupDanmaku ?s = ?s"
    by (simp add: playingEngine_eq loadedEngine_eq attachedEngine_eq constructor_def demoVideo_def
        cleanupDanmaku_def cleanupLine_def fixedExpired_def calDanmakuDuration_def
        newDanmakuLine_def item0_def demo_fields)
  show ?thesis
    by (simp add: tick_def playingEngine_fields l c demoVideo_def)
qed

lemma tickedEngine_eq:
  "tickedEngine =
     playingEngine\<lparr>nextDanmakuIndex := Some (Suc 0), nextElement := Suc 0,
                    activeDanmaku := {0},
                    danmakuLines := [newDanmakuLine, newDanmakuLine\<lparr>fixedItem := Some item0\<rparr>]\<rparr>"
  by (simp add: tickedEngine_def tick_playing)

lemma resize_ticked:
  "exec (Resize smallerVideo) tickedEngine
     = Some (tickedEngine\<lparr>videoElement := Some smallerVideo, danmakuLines := [newDanmakuLine]\<rparr>)"
  by (simp add: updatePosition_def updateDanmakuLines_def calAvailableLines_def tickedEngine_eq
      playingEngine_eq loadedEngine_eq attachedEngine_eq constructor_def demoVideo_def
      smallerVideo_def Let_def shrinkLines.simps)

lemma resizedEngine_eq:
  "resizedEngine
     = tickedEngine\<lparr>videoElement := Some smallerVideo, danmakuLines := [newDanmakuLine]\<rparr>"
  unfolding resizedEngine_def resize_ticked by simp

text \<open>The example engines are reached from the constructor.\<close>

lemma trace_playing:
  "execAll [Attach demoVideo, Load ''json'' noParse (XhrLoad 200 (JsonBody 0 demoTuples)), Show]
     constructor = Some playingEngine"
proof -
  have 1: "exec (Attach demoVideo) constructor = Some attachedEngine"
    by (simp add: attachToVideo_demo)
  have 2: "exec (Load ''json'' noParse (XhrLoad 200 (JsonBody 0 demoTuples))) attachedEngine
             = Some loadedEngine"
    by (simp add: loadedEngine_def)
  have 3: "exec Show loadedEngine = Some playingEngine"
    by (simp add: playingEngine_def)
  show ?thesis
    by (simp only: execAll.simps 1 2 3 option.case)
qed

lemma tick_playing_armed: "exec (Tick 2) playingEngine = Some tickedEngine"
proof -
  have i: "intervalId playingEngine = Some ()"
    by (simp add: playingEngine_eq loadedEngine_eq attachedEngine_eq constructor_def)
  show ?thesis
    unfolding exec.simps i tickedEngine_eq tick_playing by simp
qed

section \<open>Registry and lanes\<close>

text \<open>
  C1.  The registry \<open>_activeDanmaku\<close> is to equal the union of the items that the lines
  hold, also after a resize that removes trailing lines.  The example engine is
  attached, loaded and shown.  The tick activates the bottom annotation into the last
  line, and registry and lines agree on it.  The resize to one line pops that line and
  clears it, and the registry keeps the annotation: \<open>updateDanmakuLines\<close> never
  touches \<open>_activeDanmaku\<close>, unlike \<open>cleanupDanmaku\<close> and \<open>detach\<close>, which delete
  what they remove.  Without a resize registry and lines always agree, which is the
  last lemma of this theory.
\<close>

theorem updateDanmakuLines_shrink_keeps_registry:
  "execAll [Attach demoVideo, Load ''json'' noParse (XhrLoad 200 (JsonBody 0 demoTuples)), Show]
     constructor = Some playingEngine
   \<and> exec (Tick 2) playingEngine = Some tickedEngine
   \<and> activeDanmaku tickedEngine = {0} \<and> visibleRefs tickedEngine = {0}
   \<and> exec (Resize smallerVideo) tickedEngine = Some resizedEngine
   \<and> activeDanmaku resizedEngine = {0} \<and> visibleRefs resizedEngine = {}"
proof -
  note trace_playing tick_playing_armed
  moreover have "exec (Resize smallerVideo) tickedEngine = Some resizedEngine"
    unfolding resizedEngine_eq by (rule resize_ticked)
  moreover have "activeDanmaku tickedEngine = {0} \<and> visibleRefs tickedEngine = {0}"
    by (simp add: tickedEngine_eq visibleRefs_def lineRefs_def newDanmakuLine_def item0_def
        demo_fields)
  moreover have "activeDanmaku resizedEngine = {0} \<and> visibleRefs resizedEngine = {}"
    by (simp add: resizedEngine_eq tickedEngine_eq visibleRefs_def lineRefs_def
        newDanmakuLine_def)
  ultimately show ?thesis by simp
qed

section \<open>Binary search\<close>

text \<open>
  What the loop returns on a sorted collection, whatever the ties: an index whose time
  is at least the query, and either equal to it or the leftmost such index.
\<close>

lemma searchLoop_due:
  assumes "sorted (map time ds)"
    and "0 \<le> left" "right < int (length ds)" "left \<le> right + 1"
    and "\<forall>i<nat left. time (ds ! i) < t"
    and "\<forall>i<length ds. right < int i \<longrightarrow> t < time (ds ! i)"
  shows "case searchLoop ds t left right of
           None \<Rightarrow> (\<forall>i<length ds. time (ds ! i) < t)
         | Some k \<Rightarrow> k < length ds \<and> t \<le> time (ds ! k)
                      \<and> (time (ds ! k) = t \<or> (\<forall>i<k. time (ds ! i) < t))"
  using assms
proof (induction ds t left right rule: searchLoop.induct)
  case (1 ds t left right)
  show ?case
  proof (cases "left \<le> right")
    case False
    with "1.prems" have eq: "left = right + 1" by simp
    show ?thesis
    proof (cases "left < int (length ds)")
      case True
      have "t < time (ds ! nat left)"
        using "1.prems"(2,6) True eq by (simp add: nat_less_iff)
      with True False "1.prems"(2,5) show ?thesis
        by (subst searchLoop.simps) (simp add: nat_less_iff)
    next
      case outside: False
      with "1.prems"(3) eq have "nat left = length ds" by simp
      with False outside "1.prems"(5) show ?thesis
        by (subst searchLoop.simps) simp
    qed
  next
    case True
    define mid where "mid = (left + right) div 2"
    have mid: "left \<le> mid" "mid \<le> right" using True by (simp_all add: mid_def)
    then have midr: "0 \<le> mid" "nat mid < length ds"
      using "1.prems"(2,3) by (simp_all add: nat_less_iff)
    show ?thesis
    proof (cases "time (ds ! nat mid) = t")
      case found: True
      with True midr show ?thesis
        by (subst searchLoop.simps) (simp add: mid_def Let_def)
    next
      case ne: False
      show ?thesis
      proof (cases "time (ds ! nat mid) < t")
        case lt: True
        have below: "\<forall>i<nat (mid + 1). time (ds ! i) < t"
        proof (intro allI impI)
          fix i assume "i < nat (mid + 1)"
          then have "i \<le> nat mid" using midr(1) by simp
          then have "time (ds ! i) \<le> time (ds ! nat mid)"
            using "1.prems"(1) midr(2) by (simp add: sorted_iff_nth_mono)
          with lt show "time (ds ! i) < t" by simp
        qed
        have "case searchLoop ds t (mid + 1) right of
                None \<Rightarrow> (\<forall>i<length ds. time (ds ! i) < t)
              | Some k \<Rightarrow> k < length ds \<and> t \<le> time (ds ! k)
                           \<and> (time (ds ! k) = t \<or> (\<forall>i<k. time (ds ! i) < t))"
          using "1.IH"(1)[OF True mid_def refl ne lt "1.prems"(1) _ "1.prems"(3) _ below
              "1.prems"(6)] mid midr by simp
        with True ne lt show ?thesis
          by (subst searchLoop.simps) (simp add: mid_def Let_def)
      next
        case ge: False
        with ne have gt: "t < time (ds ! nat mid)" by simp
        have above: "\<forall>i<length ds. mid - 1 < int i \<longrightarrow> t < time (ds ! i)"
        proof (intro allI impI)
          fix i assume i: "i < length ds" "mid - 1 < int i"
          then have "nat mid \<le> i" by simp
          then have "time (ds ! nat mid) \<le> time (ds ! i)"
            using "1.prems"(1) i(1) by (simp add: sorted_iff_nth_mono)
          with gt show "t < time (ds ! i)" by simp
        qed
        have "case searchLoop ds t left (mid - 1) of
                None \<Rightarrow> (\<forall>i<length ds. time (ds ! i) < t)
              | Some k \<Rightarrow> k < length ds \<and> t \<le> time (ds ! k)
                           \<and> (time (ds ! k) = t \<or> (\<forall>i<k. time (ds ! i) < t))"
          using "1.IH"(2)[OF True mid_def refl ne ge "1.prems"(1,2) _ _ "1.prems"(5) above]
            mid midr "1.prems"(3) by simp
        with True ne ge show ?thesis
          by (subst searchLoop.simps) (simp add: mid_def Let_def)
      qed
    qed
  qed
qed

text \<open>
  On a collection sorted strictly by time, that is without ties, the result is the
  leftmost index whose time is at least the query, and none when there is no such index.
\<close>

lemma searchCurDanmaku_leftmost_without_ties:
  assumes "data s = Some ds" and "sorted (map time ds)" and "distinct (map time ds)"
  shows "leftmostDue ds t (searchCurDanmaku t s)"
proof (cases "ds = []")
  case True
  with assms(1) show ?thesis
    by (simp add: searchCurDanmaku_def searchCurDanmakuFrom_def leftmostDue_def)
next
  case False
  let ?r = "searchLoop ds t 0 (int (length ds) - 1)"
  have r: "searchCurDanmaku t s = ?r"
    using assms(1) False by (simp add: searchCurDanmaku_def searchCurDanmakuFrom_def)
  have due: "case ?r of
           None \<Rightarrow> (\<forall>i<length ds. time (ds ! i) < t)
         | Some k \<Rightarrow> k < length ds \<and> t \<le> time (ds ! k)
                      \<and> (time (ds ! k) = t \<or> (\<forall>i<k. time (ds ! i) < t))"
    using False by (intro searchLoop_due[OF assms(2)]) auto
  show ?thesis
  proof (cases ?r)
    case None
    with due r show ?thesis by (simp add: leftmostDue_def)
  next
    case (Some k)
    with due have k: "k < length ds" "t \<le> time (ds ! k)"
      "time (ds ! k) = t \<or> (\<forall>i<k. time (ds ! i) < t)" by auto
    have "\<forall>i<k. time (ds ! i) < t"
    proof (intro allI impI)
      fix i assume i: "i < k"
      then have le: "time (ds ! i) \<le> time (ds ! k)"
        using assms(2) k(1) by (simp add: sorted_iff_nth_mono)
      have "i < length (map time ds)" "k < length (map time ds)" "i \<noteq> k"
        using i k(1) by simp_all
      with assms(3) have "map time ds ! i \<noteq> map time ds ! k"
        by (simp only: nth_eq_iff_index_eq not_False_eq_True)
      then have ne: "time (ds ! i) \<noteq> time (ds ! k)" using i k(1) by simp
      from k(3) show "time (ds ! i) < t"
      proof
        assume "time (ds ! k) = t"
        with le ne show ?thesis by simp
      next
        assume "\<forall>i<k. time (ds ! i) < t"
        with i show ?thesis by simp
      qed
    qed
    with k r Some show ?thesis by (simp add: leftmostDue_def)
  qed
qed

text \<open>
  C2.  \<open>searchCurDanmaku\<close> is to return the leftmost index whose time is at least the
  query time.  On three annotations that all have the time 1 the query 1 meets the
  middle one first, and \<open>if (midTime === time) return mid\<close> returns its index 1; the
  entry at index 0 has the time 1 as well and is to the left of it.
\<close>

theorem searchCurDanmaku_tie_returns_middle:
  "data tieEngine = Some tieData \<and> sorted (map time tieData)
   \<and> searchCurDanmaku 1 tieEngine = Some 1 \<and> time (tieData ! 0) = 1"
  by (simp add: tieEngine_def tieData_def searchCurDanmaku_def searchCurDanmakuFrom_def
      searchLoop.simps)

section \<open>Failing loads\<close>

text \<open>
  What a rejected \<open>load\<close> leaves behind when nothing happens between the call and
  the end of the request: the collection as it was, and the engine as the \<open>hide()\<close>
  at the start of \<open>load\<close> left it, since only the \<open>then\<close> handler restores the
  state.
\<close>

lemma data_clearInterval [simp]: "data (clearInterval s) = data s"
  by (simp add: clearInterval_def split: option.split)

lemma data_startInterval [simp]: "data (startInterval s) = data s"
  by (simp add: startInterval_def split: option.split)

lemma data_pause [simp]: "data (pause s) = data s"
  by (simp add: pause_def Let_def)

lemma data_show [simp]: "data (show' s) = data s"
  by (simp add: show'_def Let_def split: option.split)

lemma data_hide [simp]: "data (hide s) = data s"
  by (simp add: hide_def Let_def split: option.split)

lemma load_rejected:
  assumes "load format parse xhr s = (Inl e, s')"
  shows "data s' = data s
       \<and> s' = (if state s = Playing \<or> state s = Paused then hide s else s)"
proof -
  have "(state s \<noteq> Empty \<and> state s \<noteq> Hide) = (state s = Playing \<or> state s = Paused)"
    by (cases "state s") simp_all
  with assms show ?thesis
    by (auto simp: load_def loadStart_def loadSettle_def Let_def split: sum.splits if_splits)
qed

text \<open>
  C6.  After a failing load the lifecycle state is to be the one the engine was in
  when \<open>load\<close> was called.  The playing example engine calls \<open>load\<close> and the request
  fails: the promise is rejected and the collection is unchanged, but the engine stays
  in the state Hide with the visibility flag cleared.
\<close>

theorem load_failure_leaves_hidden:
  "execAll [Attach demoVideo, Load ''json'' noParse (XhrLoad 200 (JsonBody 0 demoTuples)), Show]
     constructor = Some playingEngine
   \<and> state playingEngine = Playing \<and> isVisible playingEngine
   \<and> load ''json'' noParse XhrError playingEngine = (Inl NetworkRequestFailed, hide playingEngine)
   \<and> data (hide playingEngine) = data playingEngine
   \<and> state (hide playingEngine) = Hide \<and> isVisible (hide playingEngine) = False"
proof -
  have "state playingEngine = Playing \<and> isVisible playingEngine
   \<and> load ''json'' noParse XhrError playingEngine = (Inl NetworkRequestFailed, hide playingEngine)
   \<and> data (hide playingEngine) = data playingEngine
   \<and> state (hide playingEngine) = Hide \<and> isVisible (hide playingEngine) = False"
    by (simp add: playingEngine_eq load_def loadStart_def loadSettle_def load'_def hide_def
        clearInterval_def Let_def loadedEngine_eq attachedEngine_eq constructor_def)
  with trace_playing show ?thesis by (simp only: simp_thms)
qed

section \<open>The loop of loadDanmaku\<close>









section \<open>Dropped annotations\<close>

text \<open>
  A round whose \<open>pickLine\<close> finds no line: the annotation is consumed.  The cursor is
  past it, registry and lines are as before, and the round ends in \<open>continue\<close>.
\<close>

lemma dropped_round:
  assumes "data s = Some ds" and "candidate t s = Inr (Some index)"
    and "ref (ds ! index) \<notin> activeDanmaku s" and "\<not> 1 / 10 < \<bar>time (ds ! index) - t\<bar>"
    and "overlayElement s = Some ov"
    and "pickLine \<lparr> danmaku = ds ! index, element = nextElement s \<rparr>
           (s\<lparr>nextDanmakuIndex := Some (index + 1), nextElement := Suc (nextElement s)\<rparr>)
         = Inr None"
  shows "loadDanmakuRound t s
         = Continue (s\<lparr>nextDanmakuIndex := Some (index + 1),
                       nextElement := Suc (nextElement s)\<rparr>)"
  using assms by (simp add: loadDanmakuRound_def Let_def newDanmakuItem_def)

text \<open>While the cursor is inside the collection, the next candidate is the cursor.\<close>

lemma candidate_in_bounds:
  "data s = Some ds \<Longrightarrow> nextDanmakuIndex s = Some n \<Longrightarrow> n < length ds
     \<Longrightarrow> candidate t s = Inr (Some n)"
  by (simp add: candidate_def)

text \<open>
  When the collection is a single annotation that is due and not ahead of the current
  time by more than the tolerance, and there is no line, every round drops it, and the
  search that follows a cursor at the end of the collection finds it again.
\<close>

lemma search_single:
  assumes "data s = Some [d]" and "t \<le> time d"
  shows "searchCurDanmaku t s = Some 0"
proof -
  have "searchLoop [d] t 0 (- 1) = Some 0"
    by (subst searchLoop.simps) simp
  then have "searchLoop [d] t 0 0 = Some 0"
    using assms(2) by (subst searchLoop.simps) (simp add: Let_def)
  with assms(1) show ?thesis
    by (simp add: searchCurDanmaku_def searchCurDanmakuFrom_def)
qed

lemma candidate_single:
  assumes "data s = Some [d]" and "t \<le> time d"
  shows "candidate t s = Inr (Some 0)"
  using assms search_single[OF assms]
  by (auto simp: candidate_def split: option.splits)

lemma drop_single_round:
  assumes "data s = Some [d]" and "t \<le> time d" and "time d - t \<le> 1 / 10"
    and "ref d \<notin> activeDanmaku s" and "overlayElement s = Some ov" and "danmakuLines s = []"
  shows "loadDanmakuRound t s
         = Continue (s\<lparr>nextDanmakuIndex := Some (Suc 0), nextElement := Suc (nextElement s)\<rparr>)"
  using assms candidate_single[OF assms(1,2)]
  by (simp add: loadDanmakuRound_def Let_def newDanmakuItem_def pickLine_def)

lemma drop_single_forever:
  assumes "data s = Some [d]" and "t \<le> time d" and "time d - t \<le> 1 / 10"
    and "ref d \<notin> activeDanmaku s" and "overlayElement s = Some ov" and "danmakuLines s = []"
  shows "loadDanmakuLoop fuel t s = None"
  using assms
proof (induction fuel arbitrary: s)
  case 0
  then show ?case by simp
next
  case (Suc fuel)
  let ?s' = "s\<lparr>nextDanmakuIndex := Some (Suc 0), nextElement := Suc (nextElement s)\<rparr>"
  have "loadDanmakuLoop fuel t ?s' = None"
    using Suc.prems by (intro Suc.IH) simp_all
  then show ?case
    using drop_single_round[OF Suc.prems] by simp
qed

lemma trace_stuck:
  "execAll [Attach lowVideo, Load ''json'' noParse
              (XhrLoad 200 (JsonBody 0 [(1, 0, ''#ffffff'', ''u1'', ''last'')])), Show]
     constructor = Some stuckEngine"
proof -
  have a: "attachToVideo lowVideo constructor
       = Some (Inr (), constructor\<lparr>videoElement := Some lowVideo,
                 overlayElement :=
                   Some \<lparr> styleDisplay = DisplayDefault, styleLeft = 0, styleWidth = 640 \<rparr>,
                 intersectionObserver := Some (),
                 resizeObserver := Some (), handlers := True, state := Hide\<rparr>)"
    by (simp add: attachToVideo_def updateDanmakuLines_def calAvailableLines_def
        constructor_def lowVideo_def Let_def)
  show ?thesis
    unfolding stuckEngine_def a by (simp add: a)
qed

lemma stuckEngine_eq:
  "stuckEngine =
     constructor\<lparr>videoElement := Some lowVideo,
                 overlayElement :=
                   Some \<lparr> styleDisplay = DisplayBlock, styleLeft = 0, styleWidth = 640 \<rparr>,
                 intersectionObserver := Some (), resizeObserver := Some (), handlers := True,
                 data := Some [lastDanmaku], nextRef := 1, isVisible := True,
                 intervalId := Some (), state := Playing\<rparr>"
proof -
  have a: "attachToVideo lowVideo constructor
       = Some (Inr (), constructor\<lparr>videoElement := Some lowVideo,
                 overlayElement :=
                   Some \<lparr> styleDisplay = DisplayDefault, styleLeft = 0, styleWidth = 640 \<rparr>,
                 intersectionObserver := Some (),
                 resizeObserver := Some (), handlers := True, state := Hide\<rparr>)"
    by (simp add: attachToVideo_def updateDanmakuLines_def calAvailableLines_def
        constructor_def lowVideo_def Let_def)
  show ?thesis
    unfolding stuckEngine_def a
    by (simp add: load_def loadStart_def loadSettle_def load'_def decode_def toLowerCase_def
        constructor_def validateMode_def lastDanmaku_def show'_def startInterval_def
        lowVideo_def Let_def)
qed

text \<open>
  C4.  An annotation that finds no line is to be consumed: the loop goes on with the
  next candidate and does not try the annotation again.  The example engine has no
  line, and its collection is the single annotation, due now.  The first round drops
  it: the cursor is 1, the registry is empty, no line holds it.  The cursor is then at
  the end of the collection, so the next round searches from the current time and
  finds index 0 again; the tick tries the same annotation in every round and does not
  return, whatever the number of rounds.
\<close>

theorem dropped_last_annotation_is_retried:
  "execAll [Attach lowVideo, Load ''json'' noParse
              (XhrLoad 200 (JsonBody 0 [(1, 0, ''#ffffff'', ''u1'', ''last'')])), Show]
     constructor = Some stuckEngine
   \<and> loadDanmakuRound 1 stuckEngine = Continue droppedEngine
   \<and> nextDanmakuIndex droppedEngine = Some 1 \<and> activeDanmaku droppedEngine = {}
   \<and> visibleRefs droppedEngine = {}
   \<and> candidate 1 droppedEngine = Inr (Some 0)
   \<and> (\<forall>fuel. loadDanmakuLoop fuel 1 droppedEngine = None)
   \<and> (\<forall>fuel. exec (Tick fuel) stuckEngine = None)"
proof -
  have f: "data stuckEngine = Some [lastDanmaku]" "(1::real) \<le> time lastDanmaku"
    "time lastDanmaku - 1 \<le> 1 / 10" "ref lastDanmaku \<notin> activeDanmaku stuckEngine"
    "overlayElement stuckEngine
       = Some \<lparr> styleDisplay = DisplayBlock, styleLeft = 0, styleWidth = 640 \<rparr>"
    "danmakuLines stuckEngine = []"
    by (simp_all add: stuckEngine_eq constructor_def lastDanmaku_def)
  have g: "data droppedEngine = Some [lastDanmaku]"
    "ref lastDanmaku \<notin> activeDanmaku droppedEngine"
    "overlayElement droppedEngine
       = Some \<lparr> styleDisplay = DisplayBlock, styleLeft = 0, styleWidth = 640 \<rparr>"
    "danmakuLines droppedEngine = []"
    by (simp_all add: droppedEngine_def f)
  have n: "nextElement stuckEngine = 0"
    by (simp add: stuckEngine_eq constructor_def)
  have r: "loadDanmakuRound 1 stuckEngine = Continue droppedEngine"
    using drop_single_round[OF f] by (simp add: droppedEngine_def n)
  have v: "videoElement stuckEngine = Some lowVideo" "isVisible stuckEngine"
    by (simp_all add: stuckEngine_eq constructor_def)
  have i: "intervalId stuckEngine = Some ()"
    by (simp add: stuckEngine_eq constructor_def)
  have "tick fuel stuckEngine = None" for fuel
    using drop_single_forever[OF f, of fuel] v f(1)
    by (simp add: tick_def loadDanmaku_def lowVideo_def)
  then have "exec (Tick fuel) stuckEngine = None" for fuel
    by (simp add: i)
  moreover have "loadDanmakuLoop fuel 1 droppedEngine = None" for fuel
    by (rule drop_single_forever[OF g(1) f(2,3) g(2,3,4)])
  moreover have "candidate 1 droppedEngine = Inr (Some 0)"
    by (rule candidate_single[OF g(1) f(2)])
  moreover have "nextDanmakuIndex droppedEngine = Some 1 \<and> activeDanmaku droppedEngine = {}
      \<and> visibleRefs droppedEngine = {}"
    by (simp add: droppedEngine_def visibleRefs_def stuckEngine_eq constructor_def)
  ultimately show ?thesis using r trace_stuck by simp
qed

section \<open>Lane allocation\<close>

lemma firstWithMargin_None:
  "firstWithMargin s w i ls = None \<longleftrightarrow> (\<forall>l\<in>set ls. \<not> lineAccepted s w l)"
  by (induction ls arbitrary: i) (auto simp: lineAccepted_def Let_def)

lemma firstWithMargin_Some:
  "firstWithMargin s w i ls = Some k \<Longrightarrow>
     i \<le> k \<and> k - i < length ls \<and> lineAccepted s w (ls ! (k - i))
       \<and> (\<forall>j<k - i. \<not> lineAccepted s w (ls ! j))"
proof (induction ls arbitrary: i)
  case Nil
  then show ?case by simp
next
  case (Cons l ls)
  show ?case
  proof (cases "lineAccepted s w l")
    case True
    with Cons.prems have "k = i"
      by (auto simp: lineAccepted_def Let_def split: if_splits)
    with True show ?thesis by simp
  next
    case False
    with Cons.prems have rec: "firstWithMargin s w (Suc i) ls = Some k"
      by (auto simp: lineAccepted_def Let_def split: if_splits)
    from Cons.IH[OF rec] have ih: "Suc i \<le> k" "k - Suc i < length ls"
      "lineAccepted s w (ls ! (k - Suc i))" "\<forall>j<k - Suc i. \<not> lineAccepted s w (ls ! j)"
      by auto
    from ih(1) have eq: "k - i = Suc (k - Suc i)" by arith
    have "\<forall>j<k - i. \<not> lineAccepted s w ((l # ls) ! j)"
    proof (intro allI impI)
      fix j assume "j < k - i"
      then show "\<not> lineAccepted s w ((l # ls) ! j)"
        using False ih(4) eq by (cases j) auto
    qed
    with ih eq show ?thesis by auto
  qed
qed

lemma firstWithMargin_firstIndex:
  "firstIndex (lineAccepted s w) ls (firstWithMargin s w 0 ls)"
proof (cases "firstWithMargin s w 0 ls")
  case None
  then show ?thesis
    using firstWithMargin_None[of s w 0 ls] by (simp add: firstIndex_def)
next
  case (Some k)
  then show ?thesis
    using firstWithMargin_Some[of s w 0 ls k] by (simp add: firstIndex_def)
qed

lemma firstWithoutFixed_None:
  "firstWithoutFixed ps = None \<longleftrightarrow> (\<forall>p\<in>set ps. hasFixed (snd p))"
  by (induction ps rule: firstWithoutFixed.induct) auto

lemma firstWithoutFixed_Some:
  "firstWithoutFixed ps = Some k \<Longrightarrow>
     \<exists>j<length ps. fst (ps ! j) = k \<and> \<not> hasFixed (snd (ps ! j))
        \<and> (\<forall>j'<j. hasFixed (snd (ps ! j')))"
proof (induction ps rule: firstWithoutFixed.induct)
  case 1
  then show ?case by simp
next
  case (2 k' l rest)
  show ?case
  proof (cases "hasFixed l")
    case False
    with 2(2) have "k = k'" by simp
    with False show ?thesis by (intro exI[of _ 0]) simp
  next
    case True
    with 2(2) have "firstWithoutFixed rest = Some k" by simp
    from 2(1)[OF _ this] True obtain j where j: "j < length rest" "fst (rest ! j) = k"
      "\<not> hasFixed (snd (rest ! j))" "\<forall>j'<j. hasFixed (snd (rest ! j'))"
      by auto
    have "\<forall>j'<Suc j. hasFixed (snd (((k', l) # rest) ! j'))"
    proof (intro allI impI)
      fix j' assume "j' < Suc j"
      then show "hasFixed (snd (((k', l) # rest) ! j'))"
        using True j(4) by (cases j') auto
    qed
    with j show ?thesis by (intro exI[of _ "Suc j"]) simp
  qed
qed

lemma top_firstIndex:
  "firstIndex (\<lambda>l. \<not> hasFixed l) ls (firstWithoutFixed (zip [0..<length ls] ls))"
proof (cases "firstWithoutFixed (zip [0..<length ls] ls)")
  case None
  then have "\<forall>p\<in>set (zip [0..<length ls] ls). hasFixed (snd p)"
    by (simp add: firstWithoutFixed_None)
  then have "\<forall>i<length ls. hasFixed (ls ! i)"
    by (auto simp: set_zip)
  with None show ?thesis by (simp add: firstIndex_def)
next
  case (Some k)
  from firstWithoutFixed_Some[OF Some] obtain j where j: "j < length ls"
    "fst (zip [0..<length ls] ls ! j) = k" "\<not> hasFixed (snd (zip [0..<length ls] ls ! j))"
    "\<forall>j'<j. hasFixed (snd (zip [0..<length ls] ls ! j'))"
    by auto
  from j have "k = j" "\<not> hasFixed (ls ! j)" by auto
  moreover from j(1,4) have "\<forall>j'<j. hasFixed (ls ! j')" by auto
  ultimately show ?thesis using Some j(1) by (simp add: firstIndex_def)
qed

lemma bottom_lastIndex:
  "lastIndex (\<lambda>l. \<not> hasFixed l) ls (firstWithoutFixed (rev (zip [0..<length ls] ls)))"
proof (cases "firstWithoutFixed (rev (zip [0..<length ls] ls))")
  case None
  then have "\<forall>p\<in>set (zip [0..<length ls] ls). hasFixed (snd p)"
    by (simp add: firstWithoutFixed_None)
  then have "\<forall>i<length ls. hasFixed (ls ! i)"
    by (auto simp: set_zip)
  with None show ?thesis by (simp add: lastIndex_def)
next
  case (Some k)
  let ?n = "length ls"
  let ?ps = "zip [0..<?n] ls"
  from firstWithoutFixed_Some[OF Some] obtain j where j: "j < ?n"
    "fst (rev ?ps ! j) = k" "\<not> hasFixed (snd (rev ?ps ! j))"
    "\<forall>j'<j. hasFixed (snd (rev ?ps ! j'))"
    by auto
  have revnth: "\<And>i. i < ?n \<Longrightarrow> rev ?ps ! i = (?n - Suc i, ls ! (?n - Suc i))"
    by (simp add: rev_nth)
  from j revnth[of j] have k: "k = ?n - Suc j" "\<not> hasFixed (ls ! k)" by auto
  have "\<forall>i. k < i \<and> i < ?n \<longrightarrow> hasFixed (ls ! i)"
  proof (intro allI impI)
    fix i assume i: "k < i \<and> i < ?n"
    then have "?n - Suc i < j" using k(1) j(1) by arith
    with j(4) have "hasFixed (snd (rev ?ps ! (?n - Suc i)))" by blast
    moreover have "?n - Suc (?n - Suc i) = i" using i by arith
    moreover have "?n - Suc i < ?n" using i by arith
    ultimately show "hasFixed (ls ! i)" using revnth[of "?n - Suc i"] by simp
  qed
  with k j(1) Some show ?thesis by (simp add: lastIndex_def)
qed

text \<open>
  What \<open>pickLine\<close> returns: for a floating item the smallest index of a line that
  passes the test of the code; for a bottom item the largest index of a line without
  a fixed item; for a top item the smallest such index; and none when there is no
  such line.  For a floating item the engine has a video whenever it has lines.
\<close>

lemma pickLine_first_accepted_line:
  assumes "mode (danmaku item) = Float \<Longrightarrow> danmakuLines s = [] \<or> videoElement s = Some v"
  shows "\<exists>r. pickLine item s = Inr r \<and>
     (case mode (danmaku item) of
        Float \<Rightarrow> firstIndex (lineAccepted s (clientWidth v)) (danmakuLines s) r
      | Bottom \<Rightarrow> lastIndex (\<lambda>l. \<not> hasFixed l) (danmakuLines s) r
      | Top \<Rightarrow> firstIndex (\<lambda>l. \<not> hasFixed l) (danmakuLines s) r)"
proof (cases "danmakuLines s = []")
  case True
  then show ?thesis
    by (simp add: pickLine_def firstIndex_def lastIndex_def split: DanmakuType.split)
next
  case False
  show ?thesis
  proof (cases "mode (danmaku item)")
    case Float
    with False assms have v: "videoElement s = Some v" by simp
    with Float False show ?thesis
      by (simp add: pickLine_def firstWithMargin_firstIndex)
  next
    case Bottom
    with False show ?thesis
      by (simp add: pickLine_def Let_def bottom_lastIndex)
  next
    case Top
    with False show ?thesis
      by (simp add: pickLine_def Let_def top_firstIndex)
  qed
qed

text \<open>
  The test of the code is the gap to the far edge exactly when the far edge of the
  overlay is at the width of the video, which is an overlay that begins at the left
  edge of the viewport; there \<open>pickLine\<close> returns the first usable line.
\<close>

lemma laneUsable_at_origin:
  "farEdge ov v = clientWidth v \<Longrightarrow> laneUsable s ov v l = lineAccepted s (clientWidth v) l"
  by (simp add: laneUsable_def gapToFarEdge_def lineAccepted_def)

lemma pickLine_first_usable_line_at_origin:
  assumes "mode (danmaku item) = Float" and "videoElement s = Some v"
    and "farEdge ov v = clientWidth v"
  shows "\<exists>r. pickLine item s = Inr r \<and> firstIndex (laneUsable s ov v) (danmakuLines s) r"
proof -
  have "laneUsable s ov v = lineAccepted s (clientWidth v)"
    using laneUsable_at_origin[OF assms(3)] by (intro ext)
  with pickLine_first_accepted_line[of item s v] assms(1,2) show ?thesis
    by simp
qed

text \<open>The engine of the video that stands 100 pixels from the left, step by step.\<close>

lemma offsetEngine_trace:
  "execAll [Layout (\<lambda>e. Some Running) (\<lambda>e. 800), Attach offsetVideo,
            Load ''json'' noParse (XhrLoad 200 (JsonBody 0 floatTuples)), Show, Tick 2,
            Layout (\<lambda>e. Some Running) (\<lambda>e. 640)] constructor
   = Some (constructor\<lparr>animations := (\<lambda>e. Some Running), rectRight := (\<lambda>e. 640),
             videoElement := Some offsetVideo, overlayElement := Some offsetOverlay,
             intersectionObserver := Some (), resizeObserver := Some (), handlers := True,
             danmakuLines := [\<lparr> queue = [\<lparr> danmaku = f0, element = 0 \<rparr>], fixedItem = None \<rparr>,
                              newDanmakuLine],
             state := Playing, data := Some [f0, f1], nextRef := 2, isVisible := True,
             intervalId := Some (), nextDanmakuIndex := Some (Suc 0), nextElement := Suc 0,
             activeDanmaku := {0}\<rparr>)"
proof -
  let ?s1 = "constructor\<lparr>animations := (\<lambda>e. Some Running), rectRight := (\<lambda>e. 800)\<rparr>"
  let ?s2 = "?s1\<lparr>videoElement := Some offsetVideo,
                  overlayElement :=
                    Some \<lparr> styleDisplay = DisplayDefault, styleLeft = 100, styleWidth = 640 \<rparr>,
                  intersectionObserver := Some (), resizeObserver := Some (), handlers := True,
                  danmakuLines := [newDanmakuLine, newDanmakuLine], state := Hide\<rparr>"
  let ?s3 = "?s2\<lparr>data := Some [f0, f1], nextRef := 2\<rparr>"
  let ?s4 = "?s3\<lparr>isVisible := True, overlayElement := Some offsetOverlay,
                  intervalId := Some (), state := Playing\<rparr>"
  let ?s5 = "?s4\<lparr>nextDanmakuIndex := Some (Suc 0), nextElement := Suc 0,
                  activeDanmaku := {0},
                  danmakuLines := [\<lparr> queue = [\<lparr> danmaku = f0, element = 0 \<rparr>], fixedItem = None \<rparr>,
                                   newDanmakuLine]\<rparr>"
  have f: "time f0 = 0" "time f1 = 100" "ref f0 = 0" "ref f1 = 1" "mode f0 = Float"
    "mode f1 = Float"
    by (simp_all add: f0_def f1_def)
  have 1: "exec (Layout (\<lambda>e. Some Running) (\<lambda>e. 800)) constructor = Some ?s1"
    by simp
  have 2: "exec (Attach offsetVideo) ?s1 = Some ?s2"
    by (simp add: attachToVideo_def updateDanmakuLines_def calAvailableLines_def
        constructor_def offsetVideo_def Let_def growLines.simps)
  have n: "newDanmakus 0 floatTuples = Inr [f0, f1]"
    by (simp add: floatTuples_def validateMode_def f0_def f1_def)
  have 3: "exec (Load ''json'' noParse (XhrLoad 200 (JsonBody 0 floatTuples))) ?s2 = Some ?s3"
    by (simp add: load_def loadStart_def loadSettle_def load'_def decode_def toLowerCase_def
        constructor_def n f Let_def) (simp add: floatTuples_def)
  have 4: "exec Show ?s3 = Some ?s4"
    by (simp add: show'_def constructor_def startInterval_def Let_def offsetVideo_def
        offsetOverlay_def)
  have r1: "loadDanmakuRound 0 ?s4 = Continue ?s5"
    by (simp add: loadDanmakuRound_def candidate_def searchCurDanmaku_def
        searchCurDanmakuFrom_def searchLoop.simps constructor_def f Let_def newDanmakuItem_def
        pickLine_def newDanmakuLine_def activate_def push_def offsetVideo_def)
  have r2: "loadDanmakuRound 0 ?s5 = Break ?s5"
    by (simp add: loadDanmakuRound_def candidate_def constructor_def f Let_def)
  have fuel: "loadDanmakuLoop 2 = loadDanmakuLoop (Suc (Suc 0))"
    by (simp only: numeral_2_eq_2)
  have lp: "loadDanmakuLoop 2 0 ?s4 = Some (Inr (), ?s5)"
    unfolding fuel by (simp only: loadDanmakuLoop.simps r1 r2 Round.case)
  have l: "loadDanmaku 2 0 ?s4 = Some (Inr (), ?s5)"
    unfolding loadDanmaku_def lp by (simp add: constructor_def)
  have c: "cleanupDanmaku ?s5 = ?s5"
    by (simp add: cleanupDanmaku_def cleanupLine_def animationDone_def newDanmakuLine_def
        constructor_def offsetVideo_def)
  have cv: "videoElement ?s4 = Some offsetVideo"
    by simp
  have ct: "currentTime offsetVideo = 0"
    by (simp add: offsetVideo_def)
  have t: "tick 2 ?s4 = Some (Inr (), ?s5)"
    by (simp only: tick_def cv ct l c option.case prod.case sum.case)
  have ci: "intervalId ?s4 = Some ()"
    by simp
  have 5: "exec (Tick 2) ?s4 = Some ?s5"
    by (simp only: exec.simps ci t option.case option.map snd_conv)
  have 6: "exec (Layout (\<lambda>e. Some Running) (\<lambda>e. 640)) ?s5
             = Some (?s5\<lparr>rectRight := (\<lambda>e. 640)\<rparr>)"
    by simp
  have e: "?s5\<lparr>rectRight := (\<lambda>e. 640)\<rparr>
           = constructor\<lparr>animations := (\<lambda>e. Some Running), rectRight := (\<lambda>e. 640),
             videoElement := Some offsetVideo, overlayElement := Some offsetOverlay,
             intersectionObserver := Some (), resizeObserver := Some (), handlers := True,
             danmakuLines := [\<lparr> queue = [\<lparr> danmaku = f0, element = 0 \<rparr>], fixedItem = None \<rparr>,
                              newDanmakuLine],
             state := Playing, data := Some [f0, f1], nextRef := 2, isVisible := True,
             intervalId := Some (), nextDanmakuIndex := Some (Suc 0), nextElement := Suc 0,
             activeDanmaku := {0}\<rparr>"
    by (simp add: constructor_def)
  show ?thesis
    unfolding e[symmetric] by (simp only: execAll.simps 1 2 3 4 5 6 option.case)
qed

lemma offsetEngine_eq:
  "offsetEngine
   = constructor\<lparr>animations := (\<lambda>e. Some Running), rectRight := (\<lambda>e. 640),
             videoElement := Some offsetVideo, overlayElement := Some offsetOverlay,
             intersectionObserver := Some (), resizeObserver := Some (), handlers := True,
             danmakuLines := [\<lparr> queue = [\<lparr> danmaku = f0, element = 0 \<rparr>], fixedItem = None \<rparr>,
                              newDanmakuLine],
             state := Playing, data := Some [f0, f1], nextRef := 2, isVisible := True,
             intervalId := Some (), nextDanmakuIndex := Some (Suc 0), nextElement := Suc 0,
             activeDanmaku := {0}\<rparr>"
  unfolding offsetEngine_def offsetEngine_trace by simp

text \<open>
  C5.  For a floating item \<open>pickLine\<close> is to return the smallest index of a line whose
  queue is empty or whose last item leaves a gap of at least the line margin to the far
  edge of the overlay.  In the example the overlay begins 100 pixels from the left of
  the viewport and is 640 pixels wide, so its far edge is at 740.  The last item of
  the first line has its right edge at 640: the gap is 100, the line margin is 50, and
  the first line is usable.  \<open>pickLine\<close> subtracts the right edge, a coordinate of
  the viewport, from the width of the video and finds 0; it passes over the first line
  and returns the second.
\<close>

theorem pickLine_passes_over_usable_line:
  "execAll [Layout (\<lambda>e. Some Running) (\<lambda>e. 800), Attach offsetVideo,
            Load ''json'' noParse (XhrLoad 200 (JsonBody 0 floatTuples)), Show, Tick 2,
            Layout (\<lambda>e. Some Running) (\<lambda>e. 640)] constructor = Some offsetEngine
   \<and> overlayElement offsetEngine = Some offsetOverlay
   \<and> videoElement offsetEngine = Some offsetVideo
   \<and> queue (danmakuLines offsetEngine ! 0) = [\<lparr> danmaku = f0, element = 0 \<rparr>]
   \<and> farEdge offsetOverlay offsetVideo = 740
   \<and> gapToFarEdge offsetEngine offsetOverlay offsetVideo (danmakuLines offsetEngine ! 0) = 100
   \<and> lineMargin offsetEngine = 50
   \<and> laneUsable offsetEngine offsetOverlay offsetVideo (danmakuLines offsetEngine ! 0)
   \<and> mode f1 = Float
   \<and> pickLine \<lparr> danmaku = f1, element = 1 \<rparr> offsetEngine = Inr (Some 1)"
proof -
  have t: "execAll [Layout (\<lambda>e. Some Running) (\<lambda>e. 800), Attach offsetVideo,
            Load ''json'' noParse (XhrLoad 200 (JsonBody 0 floatTuples)), Show, Tick 2,
            Layout (\<lambda>e. Some Running) (\<lambda>e. 640)] constructor = Some offsetEngine"
    unfolding offsetEngine_eq by (rule offsetEngine_trace)
  have g: "overlayElement offsetEngine = Some offsetOverlay"
    "videoElement offsetEngine = Some offsetVideo"
    "queue (danmakuLines offsetEngine ! 0) = [\<lparr> danmaku = f0, element = 0 \<rparr>]"
    "lineMargin offsetEngine = 50" "rectRight offsetEngine = (\<lambda>e. 640)"
    "danmakuLines offsetEngine
       = [\<lparr> queue = [\<lparr> danmaku = f0, element = 0 \<rparr>], fixedItem = None \<rparr>, newDanmakuLine]"
    by (simp_all add: offsetEngine_eq constructor_def)
  have e: "farEdge offsetOverlay offsetVideo = 740"
    by (simp add: farEdge_def offsetOverlay_def offsetVideo_def)
  have gap: "gapToFarEdge offsetEngine offsetOverlay offsetVideo (danmakuLines offsetEngine ! 0)
               = 100"
    by (simp add: gapToFarEdge_def e g)
  have u: "laneUsable offsetEngine offsetOverlay offsetVideo (danmakuLines offsetEngine ! 0)"
    by (simp add: laneUsable_def gap g(4))
  have m: "mode f1 = Float" by (simp add: f1_def)
  have p: "pickLine \<lparr> danmaku = f1, element = 1 \<rparr> offsetEngine = Inr (Some 1)"
    by (simp add: pickLine_def g m newDanmakuLine_def offsetVideo_def)
  from t g(1-4) e gap u m p show ?thesis by (simp only: simp_thms)
qed

section \<open>Successful loads\<close>






section \<open>Pause and resume\<close>

text \<open>
  C8.  In the state Playing, \<open>pause()\<close> leads to Paused and \<open>resume()\<close> back to
  Playing, and neither changes the registry or what any line holds in its queue or as
  its fixed item.
\<close>

theorem pause_resume_keeps_lanes:
  assumes "state s = Playing"
  shows "state (pause s) = Paused
       \<and> activeDanmaku (pause s) = activeDanmaku s
       \<and> danmakuLines (pause s) = danmakuLines s
       \<and> state (resume (pause s)) = Playing
       \<and> activeDanmaku (resume (pause s)) = activeDanmaku s
       \<and> danmakuLines (resume (pause s)) = danmakuLines s"
  using assms
  by (simp add: pause_def resume_def clearInterval_def startInterval_def Let_def
      split: option.split)

theorem pause_resume_keeps_lanes_witness:
  "state tickedEngine = Playing
   \<and> state (pause tickedEngine) = Paused
   \<and> state (resume (pause tickedEngine)) = Playing
   \<and> activeDanmaku (resume (pause tickedEngine)) = {0}
   \<and> danmakuLines (resume (pause tickedEngine))
       = [newDanmakuLine, newDanmakuLine\<lparr>fixedItem := Some item0\<rparr>]"
proof -
  have p: "state tickedEngine = Playing"
    by (simp add: tickedEngine_eq playingEngine_fields)
  from pause_resume_keeps_lanes[OF p] p show ?thesis
    by (simp add: tickedEngine_eq)
qed

section \<open>The visibility flag\<close>

lemma isVisible_clearInterval [simp]: "isVisible (clearInterval s) = isVisible s"
  by (simp add: clearInterval_def split: option.split)

lemma isVisible_startInterval [simp]: "isVisible (startInterval s) = isVisible s"
  by (simp add: startInterval_def split: option.split)

lemma isVisible_pause [simp]: "isVisible (pause s) = isVisible s"
  by (simp add: pause_def Let_def)

lemma isVisible_resume [simp]: "isVisible (resume s) = isVisible s"
  by (simp add: resume_def Let_def)

lemma isVisible_detach [simp]: "isVisible (detach s) = isVisible s"
  by (simp add: detach_def Let_def split: option.split)






lemma isVisible_cleanupDanmaku [simp]: "isVisible (cleanupDanmaku s) = isVisible s"
  by (simp add: cleanupDanmaku_def split: option.split prod.split)



lemma isVisible_loadStart_idle:
  "state s = Empty \<or> state s = Hide \<Longrightarrow> snd (loadStart s) = s"
  by (auto simp: loadStart_def Let_def)








text \<open>
  A load whose request ends before anything else happens is the call followed at once
  by the end of its request.
\<close>

lemma pendingLoads_hide [simp]: "pendingLoads (hide s) = pendingLoads s"
  by (simp add: hide_def clearInterval_def Let_def split: option.split)

lemma load_is_call_then_settle:
  "execAll [LoadCall format, LoadSettle (length (pendingLoads s)) parse xhr] s
     = exec (Load format parse xhr) s"
proof -
  obtain p s1 where l: "loadStart s = (p, s1)" by (cases "loadStart s")
  then have n: "pendingLoads s1 = pendingLoads s"
    by (auto simp: loadStart_def Let_def split: if_splits)
  have e: "s1\<lparr>pendingLoads := pendingLoads s\<rparr> = s1"
    unfolding n[symmetric] by simp
  from l n
  have "execAll [LoadCall format, LoadSettle (length (pendingLoads s)) parse xhr] s
          = Some (snd (loadSettle p format parse xhr (s1\<lparr>pendingLoads := pendingLoads s\<rparr>)))"
    by simp
  then show ?thesis
    unfolding e using l by (simp add: load_def)
qed







section \<open>The setters\<close>

text \<open>
  C10.  \<open>setFontSize\<close> checks nothing: for every number, negative and zero included,
  it stores the number as the font size and returns the engine.  \<open>setLineMargin\<close>
  throws on a negative number and leaves the stored margin as it was.
\<close>

theorem setFontSize_stores_any_size:
  assumes "margin < 0"
  shows "setFontSize n s = (Inr (), s\<lparr>fontSize := n\<rparr>)
       \<and> fontSize (snd (setFontSize n s)) = n
       \<and> setLineMargin margin s = (Inl LineMarginNegative, s)
       \<and> lineMargin (snd (setLineMargin margin s)) = lineMargin s"
  using assms by (simp add: setFontSize_def setLineMargin_def)

theorem setFontSize_stores_any_size_witness:
  "(- 1 :: real) < 0
   \<and> setFontSize (- 5) constructor = (Inr (), constructor\<lparr>fontSize := - 5\<rparr>)
   \<and> setFontSize 0 constructor = (Inr (), constructor\<lparr>fontSize := 0\<rparr>)
   \<and> setLineMargin (- 1) constructor = (Inl LineMarginNegative, constructor)
   \<and> lineMargin (snd (setLineMargin (- 1) constructor)) = 50"
proof -
  have m: "(- 1 :: real) < 0" by simp
  from setFontSize_stores_any_size[OF m, of "- 5" constructor]
    setFontSize_stores_any_size[OF m, of 0 constructor] m
  show ?thesis by (simp add: constructor_def)
qed

section \<open>Reachable engines\<close>

lemma engineInv_clearInterval [simp]: "engineInv (clearInterval s) = engineInv s"
  by (simp add: engineInv_def clearInterval_def split: option.split)

lemma engineInv_startInterval [simp]: "engineInv (startInterval s) = engineInv s"
  by (simp add: engineInv_def startInterval_def split: option.split)

lemma engineInv_pause: "engineInv s \<Longrightarrow> engineInv (pause s)"
  by (auto simp: engineInv_def pause_def clearInterval_def Let_def split: option.split)

lemma engineInv_resume: "engineInv s \<Longrightarrow> engineInv (resume s)"
  by (auto simp: engineInv_def resume_def startInterval_def Let_def split: option.split)

lemma engineInv_hide: "engineInv s \<Longrightarrow> engineInv (hide s)"
  by (auto simp: engineInv_def hide_def clearInterval_def Let_def split: option.split)

lemma engineInv_show: "engineInv s \<Longrightarrow> engineInv (show' s)"
  by (auto simp: engineInv_def show'_def pause_def startInterval_def clearInterval_def Let_def
      split: option.split)

lemma engineInv_detach: "engineInv s \<Longrightarrow> engineInv (detach s)"
  by (auto simp: engineInv_def detach_def clearInterval_def Let_def split: option.split)

lemma updateDanmakuLines_frame:
  assumes "updateDanmakuLines s = Some (r, s')"
  shows "videoElement s' = videoElement s \<and> state s' = state s \<and> isVisible s' = isVisible s
       \<and> (videoElement s = None \<longrightarrow> danmakuLines s' = danmakuLines s)"
  using assms
  by (auto simp: updateDanmakuLines_def Let_def split: option.splits if_splits sum.splits)

lemma engineInv_updateDanmakuLines:
  "engineInv s \<Longrightarrow> updateDanmakuLines s = Some (r, s') \<Longrightarrow> engineInv s'"
  using updateDanmakuLines_frame[of s r s'] by (auto simp: engineInv_def)

lemma updatePosition_frame:
  assumes "updatePosition s = Some (r, s')"
  shows "videoElement s' = videoElement s \<and> state s' = state s \<and> isVisible s' = isVisible s
       \<and> (videoElement s = None \<longrightarrow> danmakuLines s' = danmakuLines s)"
  using assms
  by (auto simp: updatePosition_def split: option.splits dest!: updateDanmakuLines_frame)

lemma engineInv_updatePosition:
  "engineInv s \<Longrightarrow> updatePosition s = Some (r, s') \<Longrightarrow> engineInv s'"
  using updatePosition_frame[of s r s'] by (auto simp: engineInv_def)

lemma engineInv_attachToVideo:
  assumes "engineInv s" and "attachToVideo v s = Some (r, s')"
  shows "engineInv s'"
proof -
  let ?s1 = "if state s \<noteq> Empty then detach s else s"
  let ?s2 = "?s1\<lparr>videoElement := Some v,
                  overlayElement :=
                    Some \<lparr> styleDisplay = DisplayDefault, styleLeft = rectLeft v,
                           styleWidth = rectWidth v \<rparr>,
                  intersectionObserver := Some (), resizeObserver := Some (),
                  handlers := True\<rparr>"
  from assms(2) obtain r' s3 where u: "updateDanmakuLines ?s2 = Some (r', s3)"
    and s': "s' = s3 \<or> s' = s3\<lparr>state := Hide\<rparr>"
    by (auto simp: attachToVideo_def Let_def split: option.splits sum.splits prod.splits)
  have "state ?s1 = Empty"
    using assms(1) by (auto simp: engineInv_def detach_def clearInterval_def Let_def
        split: option.split)
  with updateDanmakuLines_frame[OF u] have "videoElement s3 = Some v" "state s3 = Empty"
    by simp_all
  with s' show ?thesis by (auto simp: engineInv_def)
qed

lemma round_frame:
  assumes "loadDanmakuRound t s = Continue s' \<or> loadDanmakuRound t s = Break s'
      \<or> loadDanmakuRound t s = Throw e s'"
  shows "videoElement s' = videoElement s \<and> state s' = state s \<and> isVisible s' = isVisible s
       \<and> length (danmakuLines s') = length (danmakuLines s)"
  using assms
  by (auto simp: loadDanmakuRound_def newDanmakuItem_def activate_def Let_def
      split: option.splits sum.splits prod.splits if_splits)

lemma loop_frame:
  "loadDanmakuLoop fuel t s = Some (r, s') \<Longrightarrow>
     videoElement s' = videoElement s \<and> state s' = state s \<and> isVisible s' = isVisible s
       \<and> length (danmakuLines s') = length (danmakuLines s)"
proof (induction fuel arbitrary: s)
  case 0
  then show ?case by simp
next
  case (Suc fuel)
  show ?case
  proof (cases "loadDanmakuRound t s")
    case (Continue s1)
    with Suc.prems have "loadDanmakuLoop fuel t s1 = Some (r, s')" by simp
    from Suc.IH[OF this] round_frame[of t s s1] Continue show ?thesis by simp
  next
    case (Break s1)
    with Suc.prems round_frame[of t s s1] show ?thesis by auto
  next
    case (Throw e s1)
    with Suc.prems round_frame[of t s s1 e] show ?thesis by auto
  qed
qed

lemma length_cleanupLines:
  "cleanupLines s t ls active = (ls', active') \<Longrightarrow> length ls' = length ls"
  by (induction ls arbitrary: active ls' active') (auto split: prod.splits)

lemma cleanupDanmaku_frame:
  "videoElement (cleanupDanmaku s) = videoElement s \<and> state (cleanupDanmaku s) = state s
   \<and> isVisible (cleanupDanmaku s) = isVisible s
   \<and> length (danmakuLines (cleanupDanmaku s)) = length (danmakuLines s)"
  by (auto simp: cleanupDanmaku_def split: option.split prod.split dest: length_cleanupLines)

lemma engineInv_length:
  assumes "engineInv s" and "videoElement s' = videoElement s" and "state s' = state s"
    and "isVisible s' = isVisible s" and "length (danmakuLines s') = length (danmakuLines s)"
  shows "engineInv s'"
proof -
  from assms(5) have "(danmakuLines s' = []) = (danmakuLines s = [])"
    by (metis length_0_conv)
  with assms(1-4) show ?thesis by (simp add: engineInv_def)
qed

lemma engineInv_tick:
  assumes "engineInv s" and "tick fuel s = Some (r, s')"
  shows "engineInv s'"
proof -
  have "videoElement s' = videoElement s \<and> state s' = state s \<and> isVisible s' = isVisible s
       \<and> length (danmakuLines s') = length (danmakuLines s)"
    using assms(2) cleanupDanmaku_frame
    by (auto simp: tick_def loadDanmaku_def
        split: option.splits sum.splits prod.splits if_splits dest!: loop_frame)
  with assms(1) show ?thesis by (blast intro: engineInv_length)
qed

lemma engineInv_load:
  assumes "engineInv s"
  shows "engineInv (snd (load format parse xhr s))"
proof -
  let ?s1 = "if state s \<noteq> Empty \<and> state s \<noteq> Hide then hide s else s"
  have s1: "engineInv ?s1" using assms by (simp add: engineInv_hide)
  have upd: "engineInv (?s1\<lparr>data := d, nextRef := n\<rparr>)" for d n
    using s1 by (simp add: engineInv_def)
  have playing: "engineInv ((show' x)\<lparr>state := Playing\<rparr>)"
    if "engineInv x" "state x = Hide" for x
    using that
    by (auto simp: engineInv_def show'_def pause_def startInterval_def clearInterval_def Let_def
        split: option.split)
  have paused: "engineInv ((pause (show' x))\<lparr>state := Paused\<rparr>)"
    if "engineInv x" "state x = Hide" for x
    using that
    by (auto simp: engineInv_def show'_def pause_def startInterval_def clearInterval_def Let_def
        split: option.split)
  have hid: "state ?s1 = Hide" if "state s = Playing \<or> state s = Paused"
    using that by (auto simp: hide_def Let_def)
  have restored: "engineInv (if state s = Playing then (show' x)\<lparr>state := Playing\<rparr>
                   else if state s = Paused then (pause (show' x))\<lparr>state := Paused\<rparr>
                   else x)"
    if "engineInv x" "state x = state ?s1" for x
    using that playing[of x] paused[of x] hid by auto
  have settled: "engineInv (if state s = Playing
                   then (show' (?s1\<lparr>data := d, nextRef := n\<rparr>))\<lparr>state := Playing\<rparr>
                   else if state s = Paused
                   then (pause (show' (?s1\<lparr>data := d, nextRef := n\<rparr>)))\<lparr>state := Paused\<rparr>
                   else ?s1\<lparr>data := d, nextRef := n\<rparr>)" for d n
    by (rule restored[OF upd]) simp
  show ?thesis
  proof (cases "load' xhr")
    case (Inl e)
    with s1 show ?thesis by (simp add: load_def loadStart_def loadSettle_def Let_def)
  next
    case payload: (Inr payload)
    show ?thesis
    proof (cases "decode format parse payload")
      case (Inl e)
      with payload s1 show ?thesis by (simp add: load_def loadStart_def loadSettle_def Let_def)
    next
      case tuples: (Inr tuples)
      show ?thesis
      proof (cases "newDanmakus (nextRef ?s1) tuples")
        case (Inl e)
        with payload tuples s1 show ?thesis by (simp add: load_def loadStart_def loadSettle_def Let_def)
      next
        case (Inr ds)
        with payload tuples settled[where d = "Some (sort_key time ds)" and n = "nextRef ?s1 + length tuples"]
        show ?thesis by (simp add: load_def loadStart_def loadSettle_def Let_def)
      qed
    qed
  qed
qed

text \<open>The operations other than a call of \<open>load\<close> that is left under way.\<close>

lemma exec_keeps_engineInv:
  assumes "engineInv s" and "exec op s = Some s'" and "\<not> isPending op"
  shows "engineInv s'"
proof (cases op)
  case (Attach v)
  with assms show ?thesis by (auto dest: engineInv_attachToVideo)
next
  case Detach
  with assms show ?thesis by (auto intro: engineInv_detach)
next
  case (Load format parse xhr)
  with assms engineInv_load[of s format parse xhr] show ?thesis by auto
next
  case Show
  with assms show ?thesis by (auto intro: engineInv_show)
next
  case HideCall
  with assms show ?thesis by (auto intro: engineInv_hide)
next
  case Pause
  with assms show ?thesis by (auto intro: engineInv_pause)
next
  case Resume
  with assms show ?thesis by (auto intro: engineInv_resume)
next
  case (Seek t)
  with assms show ?thesis by (auto simp: seek_def engineInv_def)
next
  case (SetFontSize n)
  with assms show ?thesis by (auto simp: setFontSize_def engineInv_def)
next
  case (SetLineMargin n)
  with assms show ?thesis by (cases "n < 0") (auto simp: setLineMargin_def engineInv_def)
next
  case (Tick fuel)
  with assms show ?thesis by (auto split: option.splits dest: engineInv_tick)
next
  case (Resize v)
  show ?thesis
  proof (cases "resizeObserver s")
    case None
    with Resize assms show ?thesis by simp
  next
    case (Some u)
    have inv: "engineInv (s\<lparr>videoElement := Some v\<rparr>)"
      using assms(1) by (simp add: engineInv_def)
    from Some Resize assms(2) obtain r
      where "updatePosition (s\<lparr>videoElement := Some v\<rparr>) = Some (r, s')"
      by auto
    from engineInv_updatePosition[OF inv this] show ?thesis .
  qed
next
  case (LoadCall format)
  with assms(3) show ?thesis by simp
next
  case (LoadSettle i parse xhr)
  with assms(3) show ?thesis by simp
next
  case (Layout anim rects)
  with assms show ?thesis by (auto simp: engineInv_def)
qed

text \<open>
  Every engine reached from the constructor by operations among which each load
  settles at once is shown and attached when it is Playing or Paused, and has a video
  when it has lines.
\<close>

lemma execAll_keeps_engineInv:
  "engineInv s \<Longrightarrow> execAll ops s = Some s' \<Longrightarrow> \<forall>op\<in>set ops. \<not> isPending op
     \<Longrightarrow> engineInv s'"
proof (induction ops arbitrary: s)
  case Nil
  then show ?case by simp
next
  case (Cons op ops)
  from Cons.prems(2) obtain s1 where s1: "exec op s = Some s1" "execAll ops s1 = Some s'"
    by (auto split: option.splits)
  from Cons.prems(3) have p: "\<not> isPending op" "\<forall>op\<in>set ops. \<not> isPending op"
    by simp_all
  from exec_keeps_engineInv[OF Cons.prems(1) s1(1) p(1)] have "engineInv s1" .
  from Cons.IH[OF this s1(2) p(2)] show ?case .
qed

lemma reachable_engineInv:
  assumes "execAll ops constructor = Some s" and "\<forall>op\<in>set ops. \<not> isPending op"
  shows "(state s = Playing \<or> state s = Paused \<longrightarrow> isVisible s \<and> videoElement s \<noteq> None)
       \<and> (danmakuLines s \<noteq> [] \<longrightarrow> videoElement s \<noteq> None)"
proof -
  have "engineInv constructor" by (simp add: engineInv_def constructor_def)
  from execAll_keeps_engineInv[OF this assms] show ?thesis
    by (auto simp: engineInv_def)
qed

section \<open>Where registry and lanes agree\<close>

lemma visibleRefs_laneRefList: "visibleRefs s = set (laneRefList (danmakuLines s))"
  by (auto simp: visibleRefs_def laneRefList_def lineRefs_def lineRefList_def
      split: option.splits)

text \<open>Cleanup takes from the registry exactly what it takes from the lines.\<close>

lemma cleanupQueue_removed:
  "cleanupQueue s q A = (q', A') \<Longrightarrow>
     \<exists>gone. q = gone @ q' \<and> A' = A - set (map (\<lambda>i. ref (danmaku i)) gone)"
proof (induction q arbitrary: A)
  case Nil
  then show ?case by simp
next
  case (Cons frontItem rest)
  show ?case
  proof (cases "animationDone s frontItem")
    case False
    with Cons.prems show ?thesis by (intro exI[of _ "[]"]) auto
  next
    case True
    with Cons.prems have "cleanupQueue s rest (A - {ref (danmaku frontItem)}) = (q', A')"
      by simp
    from Cons.IH[OF this] obtain gone where "rest = gone @ q'"
      "A' = A - {ref (danmaku frontItem)} - set (map (\<lambda>i. ref (danmaku i)) gone)"
      by blast
    then show ?thesis by (intro exI[of _ "frontItem # gone"]) auto
  qed
qed

lemma cleanupLine_removed:
  assumes "cleanupLine s t line A = (line', A')" and "distinct (lineRefList line)"
  shows "\<exists>R. set (lineRefList line) = set (lineRefList line') \<union> R
            \<and> R \<inter> set (lineRefList line') = {} \<and> A' = A - R
            \<and> distinct (lineRefList line')"
proof -
  obtain q A1 where c: "cleanupQueue s (queue line) A = (q, A1)"
    by (cases "cleanupQueue s (queue line) A") auto
  from cleanupQueue_removed[OF c] obtain gone where g: "queue line = gone @ q"
    "A1 = A - set (map (\<lambda>i. ref (danmaku i)) gone)" by blast
  define G where "G = map (\<lambda>i. ref (danmaku i)) gone"
  define Q where "Q = map (\<lambda>i. ref (danmaku i)) q"
  define F where "F = (case fixedItem line of None \<Rightarrow> [] | Some i \<Rightarrow> [ref (danmaku i)])"
  have whole: "lineRefList line = G @ Q @ F"
    by (simp add: lineRefList_def g(1) G_def Q_def F_def)
  have A1: "A1 = A - set G" by (simp add: g(2) G_def)
  from assms(2) have d: "distinct G" "distinct Q" "distinct F" "set G \<inter> set Q = {}"
    "set G \<inter> set F = {}" "set Q \<inter> set F = {}"
    unfolding whole by auto
  show ?thesis
  proof (cases "fixedItem line")
    case None
    then have F: "F = []" by (simp add: F_def)
    from None assms(1) c have r: "line' = line\<lparr>queue := q\<rparr>" "A' = A1"
      by (auto simp: cleanupLine_def)
    have "lineRefList line' = Q" using None r(1) by (simp add: lineRefList_def Q_def)
    with whole F A1 r(2) d show ?thesis by (intro exI[of _ "set G"]) auto
  next
    case (Some item)
    then have F: "F = [ref (danmaku item)]" by (simp add: F_def)
    show ?thesis
    proof (cases "fixedExpired s t item")
      case False
      with Some assms(1) c have r: "line' = line\<lparr>queue := q\<rparr>" "A' = A1"
        by (auto simp: cleanupLine_def)
      have "lineRefList line' = Q @ F"
        using Some r(1) by (simp add: lineRefList_def Q_def F_def)
      with whole A1 r(2) d show ?thesis by (intro exI[of _ "set G"]) auto
    next
      case True
      with Some assms(1) c have r: "line' = line\<lparr>queue := q, fixedItem := None\<rparr>"
        "A' = A1 - {ref (danmaku item)}"
        by (auto simp: cleanupLine_def)
      have "lineRefList line' = Q" using r(1) by (simp add: lineRefList_def Q_def)
      with whole F A1 r(2) d show ?thesis by (intro exI[of _ "set G \<union> set F"]) auto
    qed
  qed
qed

lemma cleanupLines_removed:
  "cleanupLines s t ls A = (ls', A') \<Longrightarrow> distinct (laneRefList ls) \<Longrightarrow>
     \<exists>R. set (laneRefList ls) = set (laneRefList ls') \<union> R
         \<and> R \<inter> set (laneRefList ls') = {} \<and> A' = A - R \<and> distinct (laneRefList ls')"
proof (induction ls arbitrary: A ls' A')
  case Nil
  then show ?case by (simp add: laneRefList_def)
next
  case (Cons line ls)
  obtain line' A1 where l: "cleanupLine s t line A = (line', A1)"
    by (cases "cleanupLine s t line A") auto
  obtain rest A2 where r: "cleanupLines s t ls A1 = (rest, A2)"
    by (cases "cleanupLines s t ls A1") auto
  from Cons.prems(1) l r have res: "ls' = line' # rest" "A' = A2" by auto
  from Cons.prems(2) have d: "distinct (lineRefList line)" "distinct (laneRefList ls)"
    "set (lineRefList line) \<inter> set (laneRefList ls) = {}"
    by (auto simp: laneRefList_def)
  from cleanupLine_removed[OF l d(1)] obtain R1 where
    R1: "set (lineRefList line) = set (lineRefList line') \<union> R1"
      "R1 \<inter> set (lineRefList line') = {}" "A1 = A - R1" "distinct (lineRefList line')"
    by blast
  from Cons.IH[OF r d(2)] obtain R2 where
    R2: "set (laneRefList ls) = set (laneRefList rest) \<union> R2"
      "R2 \<inter> set (laneRefList rest) = {}" "A2 = A1 - R2" "distinct (laneRefList rest)"
    by blast
  have split: "laneRefList (line # ls) = lineRefList line @ laneRefList ls"
    "laneRefList (line' # rest) = lineRefList line' @ laneRefList rest"
    by (simp_all add: laneRefList_def)
  have disj: "set (lineRefList line') \<inter> set (laneRefList rest) = {}"
    using d(3) R1(1) R2(1) by auto
  have "set (laneRefList (line # ls)) = set (laneRefList (line' # rest)) \<union> (R1 \<union> R2)"
    using R1(1) R2(1) split by auto
  moreover have "(R1 \<union> R2) \<inter> set (laneRefList (line' # rest)) = {}"
    using R1 R2 d(3) split by auto
  moreover have "A2 = A - (R1 \<union> R2)" using R1(3) R2(3) by auto
  moreover have "distinct (laneRefList (line' # rest))"
    using R1(4) R2(4) disj split by simp
  ultimately show ?case unfolding res by blast
qed

lemma registryAgrees_cleanupDanmaku:
  assumes "registryAgrees s"
  shows "registryAgrees (cleanupDanmaku s)"
proof (cases "isVisible s")
  case False
  with assms show ?thesis by (simp add: cleanupDanmaku_def)
next
  case True
  show ?thesis
  proof (cases "videoElement s")
    case None
    with assms show ?thesis by (simp add: cleanupDanmaku_def)
  next
    case (Some v)
    obtain ls A where c: "cleanupLines s (currentTime v) (danmakuLines s) (activeDanmaku s) = (ls, A)"
      by (cases "cleanupLines s (currentTime v) (danmakuLines s) (activeDanmaku s)") auto
    from assms have d: "distinct (laneRefList (danmakuLines s))"
      and a: "activeDanmaku s = set (laneRefList (danmakuLines s))"
      by (simp_all add: registryAgrees_def)
    from cleanupLines_removed[OF c d] obtain R where
      R: "set (laneRefList (danmakuLines s)) = set (laneRefList ls) \<union> R"
        "R \<inter> set (laneRefList ls) = {}" "A = activeDanmaku s - R" "distinct (laneRefList ls)"
      by blast
    from R a have "A = set (laneRefList ls)" by auto
    with R(4) True Some c show ?thesis
      by (simp add: cleanupDanmaku_def registryAgrees_def)
  qed
qed

text \<open>Activation adds the annotation to the registry and to one line.\<close>

lemma laneRefList_update:
  assumes "k < length ls"
  shows "laneRefList ls
           = laneRefList (take k ls) @ lineRefList (ls ! k) @ laneRefList (drop (Suc k) ls)"
    and "laneRefList (ls[k := l'])
           = laneRefList (take k ls) @ lineRefList l' @ laneRefList (drop (Suc k) ls)"
proof -
  have "ls = take k ls @ [ls ! k] @ drop (Suc k) ls"
    using assms by (simp add: id_take_nth_drop)
  then have "laneRefList ls = laneRefList (take k ls @ [ls ! k] @ drop (Suc k) ls)"
    by simp
  then show "laneRefList ls
           = laneRefList (take k ls) @ lineRefList (ls ! k) @ laneRefList (drop (Suc k) ls)"
    by (simp add: laneRefList_def)
  have "ls[k := l'] = take k ls @ [l'] @ drop (Suc k) ls"
    using assms by (simp add: upd_conv_take_nth_drop)
  then show "laneRefList (ls[k := l'])
           = laneRefList (take k ls) @ lineRefList l' @ laneRefList (drop (Suc k) ls)"
    by (simp add: laneRefList_def)
qed

lemma laneRefList_insert:
  assumes "k < length ls" and "distinct (laneRefList ls)" and "r \<notin> set (laneRefList ls)"
    and "set (lineRefList l') = insert r (set (lineRefList (ls ! k)))"
    and "distinct (lineRefList l')"
  shows "distinct (laneRefList (ls[k := l']))
       \<and> set (laneRefList (ls[k := l'])) = insert r (set (laneRefList ls))"
  using assms(2-5) unfolding laneRefList_update[OF assms(1)] by auto

lemma lineRefList_push:
  "set (lineRefList (push item l)) = insert (ref (danmaku item)) (set (lineRefList l))"
  "distinct (lineRefList l) \<Longrightarrow> ref (danmaku item) \<notin> set (lineRefList l)
     \<Longrightarrow> distinct (lineRefList (push item l))"
  by (auto simp: lineRefList_def push_def split: option.splits)

lemma lineRefList_setFixed:
  assumes "fixedItem l = None"
  shows "set (lineRefList (setFixed item l)) = insert (ref (danmaku item)) (set (lineRefList l))"
    and "distinct (lineRefList l) \<Longrightarrow> ref (danmaku item) \<notin> set (lineRefList l)
           \<Longrightarrow> distinct (lineRefList (setFixed item l))"
  using assms by (auto simp: lineRefList_def setFixed_def)

lemma registryAgrees_activate:
  assumes "registryAgrees s" and "k < length (danmakuLines s)" and "videoElement s = Some v"
    and "ref d \<notin> activeDanmaku s" and "danmaku item = d"
    and "mode d = Float \<or> fixedItem (danmakuLines s ! k) = None"
  shows "\<exists>s'. activate d item k s = Continue s' \<and> registryAgrees s'"
proof -
  let ?ls = "danmakuLines s"
  from assms(1) have d: "distinct (laneRefList ?ls)"
    and a: "activeDanmaku s = set (laneRefList ?ls)"
    by (simp_all add: registryAgrees_def)
  from assms(4) a have fresh: "ref d \<notin> set (laneRefList ?ls)" by simp
  from d fresh have line: "distinct (lineRefList (?ls ! k))" "ref d \<notin> set (lineRefList (?ls ! k))"
    unfolding laneRefList_update(1)[OF assms(2)] by auto
  define l' where "l' = (if mode d = Float then push item (?ls ! k) else setFixed item (?ls ! k))"
  have "set (lineRefList l') = insert (ref d) (set (lineRefList (?ls ! k)))
      \<and> distinct (lineRefList l')"
  proof (cases "mode d = Float")
    case True
    with line assms(5) lineRefList_push[where item = item and l = "?ls ! k"] show ?thesis
      by (simp add: l'_def)
  next
    case False
    with assms(6) have "fixedItem (?ls ! k) = None" by simp
    from lineRefList_setFixed[OF this, where item = item] line assms(5) False show ?thesis
      by (simp add: l'_def)
  qed
  with laneRefList_insert[OF assms(2) d fresh, of l']
  have "distinct (laneRefList (?ls[k := l']))
      \<and> set (laneRefList (?ls[k := l'])) = insert (ref d) (set (laneRefList ?ls))"
    by simp
  with a assms(3) show ?thesis
    by (auto simp: activate_def Let_def registryAgrees_def l'_def)
qed

lemma pickLine_Some:
  assumes "pickLine item s = Inr (Some k)"
  shows "k < length (danmakuLines s)
       \<and> (mode (danmaku item) = Float \<or> fixedItem (danmakuLines s ! k) = None)"
proof (cases "mode (danmaku item)")
  case Float
  show ?thesis
  proof (cases "videoElement s")
    case None
    with assms Float show ?thesis
      by (simp add: pickLine_def split: if_splits)
  next
    case (Some v)
    with assms Float have "firstWithMargin s (clientWidth v) 0 (danmakuLines s) = Some k"
      by (simp add: pickLine_def split: if_splits)
    with firstWithMargin_Some[of s "clientWidth v" 0 "danmakuLines s" k] Float show ?thesis
      by simp
  qed
next
  case Bottom
  with assms have "firstWithoutFixed (rev (zip [0..<length (danmakuLines s)] (danmakuLines s)))
      = Some k"
    by (auto simp: pickLine_def Let_def split: if_splits)
  with bottom_lastIndex[of "danmakuLines s"] show ?thesis
    by (simp add: lastIndex_def hasFixed_def)
next
  case Top
  with assms have "firstWithoutFixed (zip [0..<length (danmakuLines s)] (danmakuLines s))
      = Some k"
    by (auto simp: pickLine_def Let_def split: if_splits)
  with top_firstIndex[of "danmakuLines s"] show ?thesis
    by (simp add: firstIndex_def hasFixed_def)
qed

lemma registryAgrees_same:
  "registryAgrees s \<Longrightarrow> danmakuLines s' = danmakuLines s
     \<Longrightarrow> activeDanmaku s' = activeDanmaku s \<Longrightarrow> registryAgrees s'"
  by (simp add: registryAgrees_def)

lemma registryAgrees_round:
  assumes "registryAgrees s" and "danmakuLines s = [] \<or> videoElement s \<noteq> None"
    and "loadDanmakuRound t s = Continue s' \<or> loadDanmakuRound t s = Break s'
           \<or> loadDanmakuRound t s = Throw e s'"
  shows "registryAgrees s'"
proof (cases "candidate t s")
  case (Inl e')
  with assms show ?thesis by (simp add: loadDanmakuRound_def)
next
  case (Inr c)
  show ?thesis
  proof (cases c)
    case None
    with Inr assms show ?thesis by (simp add: loadDanmakuRound_def)
  next
    case (Some index)
    show ?thesis
    proof (cases "data s")
      case None
      with Some Inr assms show ?thesis by (simp add: loadDanmakuRound_def)
    next
      case ds: (Some ds)
      let ?d = "ds ! index"
      let ?s1 = "s\<lparr>nextDanmakuIndex := Some (Suc index)\<rparr>"
      have s1: "registryAgrees ?s1"
        using assms(1) by (rule registryAgrees_same) simp_all
      show ?thesis
      proof (cases "ref ?d \<in> activeDanmaku s")
        case True
        with ds Some Inr assms(3) s1 show ?thesis
          by (simp add: loadDanmakuRound_def Let_def)
      next
        case inactive: False
        show ?thesis
        proof (cases "1 / 10 < \<bar>time ?d - t\<bar>")
          case True
          with inactive ds Some Inr assms show ?thesis
            by (simp add: loadDanmakuRound_def Let_def)
        next
          case due: False
          show ?thesis
          proof (cases "overlayElement s")
            case None
            with due inactive ds Some Inr assms(3) s1 show ?thesis
              by (simp add: loadDanmakuRound_def Let_def newDanmakuItem_def)
          next
            case ov: (Some ov)
            let ?item = "\<lparr> danmaku = ?d, element = nextElement s \<rparr>"
            let ?s2 = "?s1\<lparr>nextElement := Suc (nextElement s)\<rparr>"
            have s2: "registryAgrees ?s2"
              using assms(1) by (rule registryAgrees_same) simp_all
            have round: "loadDanmakuRound t s
                 = (case pickLine ?item ?s2 of
                      Inl e \<Rightarrow> Throw e ?s2
                    | Inr None \<Rightarrow> Continue ?s2
                    | Inr (Some lineIndex) \<Rightarrow> activate ?d ?item lineIndex ?s2)"
              using due inactive ds Some Inr ov
              by (simp add: loadDanmakuRound_def Let_def newDanmakuItem_def)
            show ?thesis
            proof (cases "pickLine ?item ?s2")
              case (Inl e')
              with round assms(3) s2 show ?thesis by auto
            next
              case picked: (Inr p)
              show ?thesis
              proof (cases p)
                case None
                with picked round assms(3) s2 show ?thesis by auto
              next
                case (Some k)
                from pickLine_Some[of ?item ?s2 k] picked Some
                have k: "k < length (danmakuLines ?s2)"
                  "mode ?d = Float \<or> fixedItem (danmakuLines ?s2 ! k) = None"
                  by simp_all
                from k(1) assms(2) obtain v where v: "videoElement ?s2 = Some v" by auto
                have "ref ?d \<notin> activeDanmaku ?s2" using inactive by simp
                from registryAgrees_activate[OF s2 k(1) v this _ k(2), where item = ?item]
                obtain s'' where "activate ?d ?item k ?s2 = Continue s''" "registryAgrees s''"
                  by auto
                with Some picked round assms(3) show ?thesis by auto
              qed
            qed
          qed
        qed
      qed
    qed
  qed
qed

text \<open>The tick keeps the agreement.\<close>

lemma registryAgrees_loop:
  "registryAgrees s \<Longrightarrow> danmakuLines s = [] \<or> videoElement s \<noteq> None
     \<Longrightarrow> loadDanmakuLoop fuel t s = Some (r, s') \<Longrightarrow> registryAgrees s'"
proof (induction fuel arbitrary: s)
  case 0
  then show ?case by simp
next
  case (Suc fuel)
  show ?case
  proof (cases "loadDanmakuRound t s")
    case (Continue s1)
    with Suc.prems have l: "loadDanmakuLoop fuel t s1 = Some (r, s')" by simp
    from Continue registryAgrees_round[OF Suc.prems(1,2), of t s1]
    have a: "registryAgrees s1" by simp
    from Continue round_frame[of t s s1] Suc.prems(2)
    have "danmakuLines s1 = [] \<or> videoElement s1 \<noteq> None" by auto
    from Suc.IH[OF a this l] show ?thesis .
  next
    case (Break s1)
    with Suc.prems registryAgrees_round[OF Suc.prems(1,2), of t s1] show ?thesis by auto
  next
    case (Throw e s1)
    with Suc.prems registryAgrees_round[OF Suc.prems(1,2), of t s1 e] show ?thesis by auto
  qed
qed

lemma laneInv_tick:
  assumes "laneInv s" and "tick fuel s = Some (r, s')"
  shows "laneInv s'"
proof -
  from assms(1) have inv: "danmakuLines s = [] \<or> videoElement s \<noteq> None" "registryAgrees s"
    "danmakuLines s = [] \<or> state s \<noteq> Empty" "danmakuLines s = [] \<or> videoElement s \<noteq> None"
    by (auto simp: laneInv_def)
  have frame: "videoElement s' = videoElement s \<and> state s' = state s
       \<and> length (danmakuLines s') = length (danmakuLines s)"
    using assms(2) cleanupDanmaku_frame
    by (auto simp: tick_def loadDanmaku_def
        split: option.splits sum.splits prod.splits if_splits dest!: loop_frame)
  have agrees: "registryAgrees s'"
    using assms(2) inv(2,4)
    by (auto simp: tick_def loadDanmaku_def
        split: option.splits sum.splits prod.splits if_splits
        intro: registryAgrees_cleanupDanmaku dest: registryAgrees_loop)
  from frame inv(1,3)
  have "(danmakuLines s' = [] \<or> videoElement s' \<noteq> None)
      \<and> (danmakuLines s' = [] \<or> state s' \<noteq> Empty)"
    by auto
  with agrees show ?thesis
    by (simp add: laneInv_def)
qed

text \<open>From no line at all, \<open>updateDanmakuLines\<close> gives lines that show nothing.\<close>

lemma growLines_refs:
  assumes "growLines target ls = Some ls'"
  shows "laneRefList ls' = laneRefList ls"
proof (rule growLines.raw_induct[where P = "\<lambda>target ls ls'. laneRefList ls' = laneRefList ls",
      OF _ assms])
  fix g :: "LineCount \<Rightarrow> DanmakuLine list \<Rightarrow> DanmakuLine list option"
    and target ls ls'
  assume IH: "\<And>t l y. g t l = Some y \<Longrightarrow> laneRefList y = laneRefList l"
    and step: "(if countGreater target (length ls) then g target (ls @ [newDanmakuLine])
                else Some ls) = Some ls'"
  show "laneRefList ls' = laneRefList ls"
  proof (cases "countGreater target (length ls)")
    case True
    with step have "g target (ls @ [newDanmakuLine]) = Some ls'" by simp
    from IH[OF this] show ?thesis
      by (simp add: laneRefList_def lineRefList_def newDanmakuLine_def)
  next
    case False
    with step show ?thesis by simp
  qed
qed

lemma updateDanmakuLines_from_none:
  assumes "updateDanmakuLines s = Some (r, s')" and "danmakuLines s = []"
  shows "laneRefList (danmakuLines s') = [] \<and> activeDanmaku s' = activeDanmaku s
       \<and> (r = Inr () \<or> danmakuLines s' = [])"
proof -
  have shrink: "shrinkLines target [] = Inl TypeError \<or> shrinkLines target [] = Inr []"
    for target
    by (subst (1 2) shrinkLines.simps) simp
  show ?thesis
    using assms shrink[of "calAvailableLines s"]
    by (auto simp: updateDanmakuLines_def Let_def laneRefList_def
        split: option.splits if_splits sum.splits dest!: growLines_refs)
qed

lemma lanes_clearInterval [simp]:
  "danmakuLines (clearInterval s) = danmakuLines s"
  "activeDanmaku (clearInterval s) = activeDanmaku s"
  "state (clearInterval s) = state s"
  "videoElement (clearInterval s) = videoElement s"
  by (simp_all add: clearInterval_def split: option.split)

lemma lanes_startInterval [simp]:
  "danmakuLines (startInterval s) = danmakuLines s"
  "activeDanmaku (startInterval s) = activeDanmaku s"
  "state (startInterval s) = state s"
  "videoElement (startInterval s) = videoElement s"
  by (simp_all add: startInterval_def split: option.split)

lemma lanes_pause [simp]:
  "danmakuLines (pause s) = danmakuLines s" "activeDanmaku (pause s) = activeDanmaku s"
  "videoElement (pause s) = videoElement s"
  by (simp_all add: pause_def Let_def clearInterval_def split: option.split)

lemma lanes_resume [simp]:
  "danmakuLines (resume s) = danmakuLines s" "activeDanmaku (resume s) = activeDanmaku s"
  "videoElement (resume s) = videoElement s"
  by (simp_all add: resume_def Let_def startInterval_def split: option.split)

lemma lanes_show [simp]:
  "danmakuLines (show' s) = danmakuLines s" "activeDanmaku (show' s) = activeDanmaku s"
  "videoElement (show' s) = videoElement s"
  by (simp_all add: show'_def Let_def startInterval_def split: option.split)

lemma lanes_hide [simp]:
  "danmakuLines (hide s) = danmakuLines s" "activeDanmaku (hide s) = activeDanmaku s"
  "videoElement (hide s) = videoElement s"
  by (simp_all add: hide_def Let_def clearInterval_def split: option.split)

lemma state_not_Empty:
  "state s \<noteq> Empty \<Longrightarrow> state (pause s) \<noteq> Empty"
  "state s \<noteq> Empty \<Longrightarrow> state (resume s) \<noteq> Empty"
  "state s \<noteq> Empty \<Longrightarrow> state (show' s) \<noteq> Empty"
  "state s \<noteq> Empty \<Longrightarrow> state (hide s) \<noteq> Empty"
  by (auto simp: pause_def resume_def show'_def hide_def Let_def split: option.split)

lemma laneInv_frame:
  assumes "laneInv s" and "videoElement s' = videoElement s"
    and "danmakuLines s' = danmakuLines s"
    and "activeDanmaku s' = activeDanmaku s" and "state s \<noteq> Empty \<Longrightarrow> state s' \<noteq> Empty"
  shows "laneInv s'"
  using assms by (auto simp: laneInv_def registryAgrees_def)

lemma lanes_loadStart:
  "videoElement (snd (loadStart s)) = videoElement s
   \<and> danmakuLines (snd (loadStart s)) = danmakuLines s
   \<and> activeDanmaku (snd (loadStart s)) = activeDanmaku s
   \<and> (state s \<noteq> Empty \<longrightarrow> state (snd (loadStart s)) \<noteq> Empty)"
  by (auto simp: loadStart_def Let_def state_not_Empty)

lemma lanes_loadSettle:
  "videoElement (snd (loadSettle p format parse xhr s)) = videoElement s
   \<and> danmakuLines (snd (loadSettle p format parse xhr s)) = danmakuLines s
   \<and> activeDanmaku (snd (loadSettle p format parse xhr s)) = activeDanmaku s
   \<and> (state s \<noteq> Empty \<longrightarrow> state (snd (loadSettle p format parse xhr s)) \<noteq> Empty)"
  by (auto simp: loadSettle_def Let_def split: sum.splits)

lemma lanes_load:
  "videoElement (snd (load format parse xhr s)) = videoElement s
   \<and> danmakuLines (snd (load format parse xhr s)) = danmakuLines s
   \<and> activeDanmaku (snd (load format parse xhr s)) = activeDanmaku s
   \<and> (state s \<noteq> Empty \<longrightarrow> state (snd (load format parse xhr s)) \<noteq> Empty)"
proof -
  obtain p s1 where l: "loadStart s = (p, s1)" by (cases "loadStart s")
  from lanes_loadStart[of s] lanes_loadSettle[of p format parse xhr s1] l show ?thesis
    by (simp add: load_def)
qed

lemma laneInv_detach:
  assumes "laneInv s"
  shows "laneInv (detach s)"
proof (cases "videoElement s")
  case None
  then have "detach s = clearInterval s"
    by (simp add: detach_def clearInterval_def Let_def split: option.split)
  with assms show ?thesis
    by (auto simp: laneInv_def registryAgrees_def)
next
  case (Some v)
  then have "videoElement (clearInterval s) = Some v"
    by (simp add: clearInterval_def split: option.split)
  then show ?thesis
    by (simp add: detach_def Let_def laneInv_def registryAgrees_def laneRefList_def)
qed

lemma laneInv_attachToVideo:
  assumes "laneInv s" and "attachToVideo v s = Some (r, s')"
  shows "laneInv s'"
proof -
  let ?s1 = "if state s \<noteq> Empty then detach s else s"
  let ?s2 = "?s1\<lparr>videoElement := Some v,
                  overlayElement :=
                    Some \<lparr> styleDisplay = DisplayDefault, styleLeft = rectLeft v,
                           styleWidth = rectWidth v \<rparr>,
                  intersectionObserver := Some (), resizeObserver := Some (),
                  handlers := True\<rparr>"
  have lines: "danmakuLines ?s1 = []"
    using assms(1)
    by (cases "videoElement s")
      (auto simp: laneInv_def detach_def clearInterval_def Let_def split: option.split)
  have s1: "laneInv ?s1" using assms(1) by (simp add: laneInv_detach)
  with lines have none: "danmakuLines ?s2 = []" "activeDanmaku ?s2 = {}"
    by (auto simp: laneInv_def registryAgrees_def laneRefList_def)
  from assms(2) obtain r' s3 where u: "updateDanmakuLines ?s2 = Some (r', s3)"
    and s': "(r' = Inr () \<and> s' = s3\<lparr>state := Hide\<rparr>) \<or> (r' \<noteq> Inr () \<and> s' = s3)"
    by (auto simp: attachToVideo_def Let_def split: option.splits sum.splits prod.splits)
  from updateDanmakuLines_from_none[OF u none(1)] none(2)
  have l: "laneRefList (danmakuLines s3) = []" "activeDanmaku s3 = {}"
    "r' = Inr () \<or> danmakuLines s3 = []"
    by simp_all
  from updateDanmakuLines_frame[OF u] have f: "videoElement s3 = Some v" by simp
  from l s' f have "videoElement s' \<noteq> None \<and> registryAgrees s'
      \<and> (danmakuLines s' = [] \<or> state s' \<noteq> Empty)"
    by (auto simp: registryAgrees_def)
  then show ?thesis
    by (simp add: laneInv_def)
qed

lemma exec_keeps_laneInv:
  assumes "laneInv s" and "\<not> isResize op" and "exec op s = Some s'"
  shows "laneInv s'"
proof (cases op)
  case (Attach v)
  with assms show ?thesis by (auto dest: laneInv_attachToVideo)
next
  case Detach
  with assms show ?thesis by (auto intro: laneInv_detach)
next
  case (Load format parse xhr)
  with assms(3) have s': "s' = snd (load format parse xhr s)" by simp
  from lanes_load[of format parse xhr s] show ?thesis
    unfolding s' by (intro laneInv_frame[OF assms(1)]) simp_all
next
  case Show
  with assms(3) show ?thesis
    by (intro laneInv_frame[OF assms(1)]) (auto simp: state_not_Empty)
next
  case HideCall
  with assms(3) show ?thesis
    by (intro laneInv_frame[OF assms(1)]) (auto simp: state_not_Empty)
next
  case Pause
  with assms(3) show ?thesis
    by (intro laneInv_frame[OF assms(1)]) (auto simp: state_not_Empty)
next
  case Resume
  with assms(3) show ?thesis
    by (intro laneInv_frame[OF assms(1)]) (auto simp: state_not_Empty)
next
  case (Seek t)
  with assms(3) show ?thesis
    by (intro laneInv_frame[OF assms(1)]) (auto simp: seek_def)
next
  case (SetFontSize n)
  with assms(3) show ?thesis
    by (intro laneInv_frame[OF assms(1)]) (auto simp: setFontSize_def)
next
  case (SetLineMargin n)
  with assms(3) show ?thesis
    by (cases "n < 0"; intro laneInv_frame[OF assms(1)]) (auto simp: setLineMargin_def)
next
  case (Tick fuel)
  with assms show ?thesis by (auto split: option.splits dest: laneInv_tick)
next
  case (Resize v)
  with assms(2) show ?thesis by simp
next
  case (LoadCall format)
  with assms(3)
  have s': "s' = (snd (loadStart s))\<lparr>pendingLoads :=
                   pendingLoads (snd (loadStart s)) @ [(fst (loadStart s), format)]\<rparr>"
    by (auto split: prod.splits)
  from lanes_loadStart[of s] show ?thesis
    unfolding s' by (intro laneInv_frame[OF assms(1)]) simp_all
next
  case (LoadSettle i parse xhr)
  show ?thesis
  proof (cases "i < length (pendingLoads s)")
    case True
    obtain p format where pf: "pendingLoads s ! i = (p, format)"
      by (cases "pendingLoads s ! i")
    let ?s = "s\<lparr>pendingLoads := take i (pendingLoads s) @ drop (Suc i) (pendingLoads s)\<rparr>"
    from LoadSettle True pf assms(3) have s': "s' = snd (loadSettle p format parse xhr ?s)"
      by auto
    from lanes_loadSettle[of p format parse xhr ?s] show ?thesis
      unfolding s' by (intro laneInv_frame[OF assms(1)]) simp_all
  next
    case False
    with LoadSettle assms show ?thesis by auto
  qed
next
  case (Layout anim rects)
  with assms(3) show ?thesis
    by (intro laneInv_frame[OF assms(1)]) auto
qed

text \<open>
  On every engine that is reached from the constructor without a resize, loads left
  under way or not, the registry is the set of the annotations that the lines show.
\<close>

lemma execAll_keeps_laneInv:
  "laneInv s \<Longrightarrow> \<forall>op\<in>set ops. \<not> isResize op \<Longrightarrow> execAll ops s = Some s' \<Longrightarrow> laneInv s'"
proof (induction ops arbitrary: s)
  case Nil
  then show ?case by simp
next
  case (Cons op ops)
  from Cons.prems(3) obtain s1 where s1: "exec op s = Some s1" "execAll ops s1 = Some s'"
    by (auto split: option.splits)
  from Cons.prems(2) have nr: "\<not> isResize op" "\<forall>op\<in>set ops. \<not> isResize op" by simp_all
  from exec_keeps_laneInv[OF Cons.prems(1) nr(1) s1(1)] have "laneInv s1" .
  then show ?case by (rule Cons.IH[OF _ nr(2) s1(2)])
qed

lemma registry_agrees_without_resize:
  assumes "execAll ops constructor = Some s" and "\<forall>op\<in>set ops. \<not> isResize op"
  shows "activeDanmaku s = visibleRefs s"
proof -
  have "laneInv constructor"
    by (simp add: laneInv_def registryAgrees_def laneRefList_def constructor_def)
  from execAll_keeps_laneInv[OF this assms(2,1)] show ?thesis
    by (simp add: laneInv_def registryAgrees_def visibleRefs_laneRefList)
qed

text \<open>
  On every engine that is reached from the constructor, by whatever operations, lines
  exist only with a video: the branch of \<open>pickLine\<close> for floating items, which reads
  the width of the video, is never entered without one.
\<close>

lemma exec_keeps_lines_with_video:
  assumes "danmakuLines s = [] \<or> videoElement s \<noteq> None" and "exec op s = Some s'"
  shows "danmakuLines s' = [] \<or> videoElement s' \<noteq> None"
proof (cases op)
  case (Attach v)
  let ?s1 = "if state s \<noteq> Empty then detach s else s"
  let ?s2 = "?s1\<lparr>videoElement := Some v,
                  overlayElement :=
                    Some \<lparr> styleDisplay = DisplayDefault, styleLeft = rectLeft v,
                           styleWidth = rectWidth v \<rparr>,
                  intersectionObserver := Some (), resizeObserver := Some (),
                  handlers := True\<rparr>"
  from Attach assms(2) obtain r' s3 where u: "updateDanmakuLines ?s2 = Some (r', s3)"
    and s': "s' = s3 \<or> s' = s3\<lparr>state := Hide\<rparr>"
    by (auto simp: attachToVideo_def Let_def split: option.splits sum.splits prod.splits)
  from updateDanmakuLines_frame[OF u] have "videoElement s3 = Some v" by simp
  with s' show ?thesis by auto
next
  case Detach
  with assms show ?thesis
    by (cases "videoElement s") (auto simp: detach_def Let_def)
next
  case (Load format parse xhr)
  with assms lanes_load[of format parse xhr s] show ?thesis by auto
next
  case (Tick fuel)
  have "videoElement s' = videoElement s \<and> length (danmakuLines s') = length (danmakuLines s)"
    if "tick fuel s = Some (r, s')" for r
    using that cleanupDanmaku_frame
    by (auto simp: tick_def loadDanmaku_def
        split: option.splits sum.splits prod.splits if_splits dest!: loop_frame)
  with Tick assms show ?thesis by (auto split: option.splits)
next
  case (Resize v)
  with assms show ?thesis
    by (auto split: option.splits dest!: updatePosition_frame)
next
  case (LoadCall format)
  with assms lanes_loadStart[of s] show ?thesis by (auto split: prod.splits)
next
  case (LoadSettle i parse xhr)
  show ?thesis
  proof (cases "i < length (pendingLoads s)")
    case True
    obtain p format where pf: "pendingLoads s ! i = (p, format)"
      by (cases "pendingLoads s ! i")
    let ?s = "s\<lparr>pendingLoads := take i (pendingLoads s) @ drop (Suc i) (pendingLoads s)\<rparr>"
    from LoadSettle True pf assms(2) have s': "s' = snd (loadSettle p format parse xhr ?s)"
      by auto
    from lanes_loadSettle[of p format parse xhr ?s] assms(1) show ?thesis
      unfolding s' by simp
  next
    case False
    with LoadSettle assms show ?thesis by auto
  qed
qed (use assms in \<open>auto simp: seek_def setFontSize_def setLineMargin_def\<close>)

lemma reachable_lines_with_video:
  "execAll ops s = Some s' \<Longrightarrow> danmakuLines s = [] \<or> videoElement s \<noteq> None
     \<Longrightarrow> danmakuLines s' = [] \<or> videoElement s' \<noteq> None"
proof (induction ops arbitrary: s)
  case Nil
  then show ?case by simp
next
  case (Cons op ops)
  from Cons.prems(1) obtain s1 where s1: "exec op s = Some s1" "execAll ops s1 = Some s'"
    by (auto split: option.splits)
  from exec_keeps_lines_with_video[OF Cons.prems(2) s1(1)]
  have "danmakuLines s1 = [] \<or> videoElement s1 \<noteq> None" .
  from Cons.IH[OF s1(2) this] show ?case .
qed

lemma constructor_lines_with_video:
  "execAll ops constructor = Some s \<Longrightarrow> danmakuLines s = [] \<or> videoElement s \<noteq> None"
proof -
  assume t: "execAll ops constructor = Some s"
  have "danmakuLines constructor = [] \<or> videoElement constructor \<noteq> None"
    by (simp add: constructor_def)
  from reachable_lines_with_video[OF t this] show ?thesis .
qed
end
